theory Spec2Isabelle
  imports Complex_Main
begin

section \<open>Cartoon Survivor: geometry helpers\<close>

text \<open>
  Python floats are modelled as \<^typ>\<open>real\<close> (exact arithmetic), Python ints as
  \<^typ>\<open>int\<close>. A \<open>pygame.Rect\<close> holds four integers; its derived attributes
  (\<open>left\<close>, \<open>right\<close>, \<open>top\<close>, \<open>bottom\<close>, \<open>centerx\<close>, \<open>centery\<close>) and the methods
  \<open>inflate\<close>, \<open>colliderect\<close> and \<open>collidepoint\<close> follow pygame's documented behaviour.
  Record fields carry a prefix, since a field named \<open>x\<close> would capture every variable
  of that name.
\<close>

record rect =
  rect_x :: int
  rect_y :: int
  rect_w :: int
  rect_h :: int

definition Rect :: "int \<Rightarrow> int \<Rightarrow> int \<Rightarrow> int \<Rightarrow> rect" where
  "Rect x y w h = \<lparr>rect_x = x, rect_y = y, rect_w = w, rect_h = h\<rparr>"

definition left :: "rect \<Rightarrow> int" where "left rc = rect_x rc"
definition top :: "rect \<Rightarrow> int" where "top rc = rect_y rc"
definition right :: "rect \<Rightarrow> int" where "right rc = rect_x rc + rect_w rc"
definition bottom :: "rect \<Rightarrow> int" where "bottom rc = rect_y rc + rect_h rc"
definition centerx :: "rect \<Rightarrow> int" where "centerx rc = rect_x rc + rect_w rc div 2"
definition centery :: "rect \<Rightarrow> int" where "centery rc = rect_y rc + rect_h rc div 2"

definition inflate :: "rect \<Rightarrow> int \<Rightarrow> int \<Rightarrow> rect" where
  "inflate rc dx dy = Rect (rect_x rc - dx div 2) (rect_y rc - dy div 2) (rect_w rc + dx) (rect_h rc + dy)"

definition colliderect :: "rect \<Rightarrow> rect \<Rightarrow> bool" where
  "colliderect a b =
     (if rect_w a = 0 \<or> rect_h a = 0 \<or> rect_w b = 0 \<or> rect_h b = 0 then False
      else min (rect_x a) (rect_x a + rect_w a) < max (rect_x b) (rect_x b + rect_w b)
         \<and> min (rect_y a) (rect_y a + rect_h a) < max (rect_y b) (rect_y b + rect_h b)
         \<and> max (rect_x a) (rect_x a + rect_w a) > min (rect_x b) (rect_x b + rect_w b)
         \<and> max (rect_y a) (rect_y a + rect_h a) > min (rect_y b) (rect_y b + rect_h b))"

definition collidepoint :: "rect \<Rightarrow> real \<Rightarrow> real \<Rightarrow> bool" where
  "collidepoint rc px py =
     (real_of_int (rect_x rc) \<le> px \<and> px < real_of_int (rect_x rc + rect_w rc)
      \<and> real_of_int (rect_y rc) \<le> py \<and> py < real_of_int (rect_y rc + rect_h rc))"

definition clamp :: "'a::linorder \<Rightarrow> 'a \<Rightarrow> 'a \<Rightarrow> 'a" where
  "clamp v a b = max a (min b v)"

definition hypot :: "real \<Rightarrow> real \<Rightarrow> real" where
  "hypot a b = sqrt (a * a + b * b)"

definition distance :: "real \<Rightarrow> real \<Rightarrow> real \<Rightarrow> real \<Rightarrow> real" where
  "distance ax ay bx by = hypot (ax - bx) (ay - by)"

definition circle_rect_collision :: "real \<Rightarrow> real \<Rightarrow> real \<Rightarrow> rect \<Rightarrow> bool" where
  "circle_rect_collision cx cy r rc =
     (let closest_x = clamp cx (real_of_int (left rc)) (real_of_int (right rc));
          closest_y = clamp cy (real_of_int (top rc)) (real_of_int (bottom rc))
      in distance cx cy closest_x closest_y \<le> r)"

text \<open>The specification's side of the collision test: the closed region a rectangle
  covers, and the least distance from a point to it.\<close>

definition solid_rect :: "rect \<Rightarrow> (real \<times> real) set" where
  "solid_rect rc = {(px, py). real_of_int (left rc) \<le> px \<and> px \<le> real_of_int (right rc)
                            \<and> real_of_int (top rc) \<le> py \<and> py \<le> real_of_int (bottom rc)}"

definition min_distance :: "real \<Rightarrow> real \<Rightarrow> rect \<Rightarrow> real" where
  "min_distance cx cy rc = Inf ((\<lambda>(px, py). distance cx cy px py) ` solid_rect rc)"


section \<open>Configuration and the random source\<close>

definition SCREEN_W :: int where "SCREEN_W = 800"
definition SCREEN_H :: int where "SCREEN_H = 600"
definition WORLD_W :: int where "WORLD_W = 2400"
definition WORLD_H :: int where "WORLD_H = 1800"
definition PLAYER_RADIUS :: int where "PLAYER_RADIUS = 16"
definition MOB_RADIUS :: int where "MOB_RADIUS = 14"
definition LAVA_RADIUS :: int where "LAVA_RADIUS = 60"
definition LEVEL_DURATION_SECONDS :: int where "LEVEL_DURATION_SECONDS = 10 * 60"
definition OBSTACLE_COUNT :: nat where "OBSTACLE_COUNT = 80"
definition NEAR_RADIUS :: int where "NEAR_RADIUS = 120"
definition MAX_NEARBY_OBSTACLES :: nat where "MAX_NEARBY_OBSTACLES = 2"
definition GRID_BIAS :: int where "GRID_BIAS = 200"
definition OBSTACLE_SAFETY_MARGIN :: int where "OBSTACLE_SAFETY_MARGIN = 8"

lemmas config_defs = SCREEN_W_def SCREEN_H_def WORLD_W_def WORLD_H_def PLAYER_RADIUS_def
  MOB_RADIUS_def LAVA_RADIUS_def LEVEL_DURATION_SECONDS_def OBSTACLE_COUNT_def NEAR_RADIUS_def
  MAX_NEARBY_OBSTACLES_def GRID_BIAS_def OBSTACLE_SAFETY_MARGIN_def

text \<open>
  Python's global generator is a stream \<open>g\<close> of the values \<open>random.random()\<close> returns,
  each in \<open>[0, 1)\<close>, read at a position that every draw advances by one. The library
  calls are functions of one such value: \<open>uniform(a, b)\<close> is \<open>a + (b - a) * random()\<close>;
  \<open>randint(a, b)\<close> picks one of the \<open>b - a + 1\<close> integers; \<open>choices\<close> with the weights
  \<open>[0.6, 0.25, 0.15]\<close> bisects the cumulative weights \<open>[0.6, 0.85, 1.0]\<close>.
\<close>

type_synonym rng = "nat \<Rightarrow> real"

definition unit_stream :: "rng \<Rightarrow> bool" where
  "unit_stream g = (\<forall>i. 0 \<le> g i \<and> g i < 1)"

definition uniform :: "real \<Rightarrow> real \<Rightarrow> real \<Rightarrow> real" where
  "uniform a b u = a + (b - a) * u"

definition randint :: "int \<Rightarrow> int \<Rightarrow> real \<Rightarrow> int" where
  "randint a b u = a + \<lfloor>u * real_of_int (b - a + 1)\<rfloor>"

definition ENEMY_TYPES :: "string list" where
  "ENEMY_TYPES = [''melee'', ''shooter'', ''lava'']"

definition choices_enemy :: "real \<Rightarrow> string" where
  "choices_enemy u =
     (if u < 6 / 10 then ENEMY_TYPES ! 0 else if u < 85 / 100 then ENEMY_TYPES ! 1 else ENEMY_TYPES ! 2)"

section \<open>Data\<close>

record obstacle =
  obs_rect :: rect
  obs_kind :: string

record mob =
  mob_x :: real
  mob_y :: real
  mob_hp :: real
  mob_speed :: real
  mob_type :: string
  mob_cooldown :: real
  mob_id :: int

section \<open>Spawning a mob\<close>

text \<open>
  \<open>spawn_mob\<close>'s retry loop is \<open>while True\<close>, so it is a partial function: \<open>None\<close> would
  be a loop that never ends. Beside the position and the next position in the random
  stream, the result records how the loop was left, the final value of \<open>tries\<close> and the
  number of iterations; the source does not return these three, they are there for the
  theorems to speak about.
\<close>

datatype spawn_exit = All_good | Fallback_near_player | Fallback_inside_obstacle

record spawn_place =
  place_x :: real
  place_y :: real
  place_rng :: nat
  place_exit :: spawn_exit
  place_tries :: nat
  place_iters :: nat

fun inside_obs :: "obstacle list \<Rightarrow> real \<Rightarrow> real \<Rightarrow> bool" where
  "inside_obs [] x y = False"
| "inside_obs (ob # obs) x y =
     (if collidepoint (inflate (obs_rect ob) (OBSTACLE_SAFETY_MARGIN * 2) (OBSTACLE_SAFETY_MARGIN * 2)) x y
      then True else inside_obs obs x y)"

partial_function (option) spawn_search ::
  "rng \<Rightarrow> nat \<Rightarrow> real \<Rightarrow> real \<Rightarrow> obstacle list \<Rightarrow> nat \<Rightarrow> nat \<Rightarrow> spawn_place option" where
  "spawn_search g i player_x player_y obstacles tries iters =
     (let gx = randint 0 (if WORLD_W div GRID_BIAS > 0 then WORLD_W div GRID_BIAS else 1) (g i);
          gy = randint 0 (if WORLD_H div GRID_BIAS > 0 then WORLD_H div GRID_BIAS else 1) (g (i + 1));
          x = real_of_int (gx * GRID_BIAS)
              + uniform (- real_of_int GRID_BIAS / 2) (real_of_int GRID_BIAS / 2) (g (i + 2));
          y = real_of_int (gy * GRID_BIAS)
              + uniform (- real_of_int GRID_BIAS / 2) (real_of_int GRID_BIAS / 2) (g (i + 3));
          x = clamp x 0 (real_of_int WORLD_W);
          y = clamp y 0 (real_of_int WORLD_H)
      in if distance x y player_x player_y < 300 then
           (if tries + 1 > 300 then
              Some \<lparr>place_x = uniform 0 (real_of_int WORLD_W) (g (i + 4)),
                    place_y = uniform 0 (real_of_int WORLD_H) (g (i + 5)),
                    place_rng = i + 6, place_exit = Fallback_near_player,
                    place_tries = tries + 1, place_iters = iters + 1\<rparr>
            else spawn_search g (i + 4) player_x player_y obstacles (tries + 1) (iters + 1))
         else if inside_obs obstacles x y then
           (if tries + 1 > 500 then
              Some \<lparr>place_x = uniform 0 (real_of_int WORLD_W) (g (i + 4)),
                    place_y = uniform 0 (real_of_int WORLD_H) (g (i + 5)),
                    place_rng = i + 6, place_exit = Fallback_inside_obstacle,
                    place_tries = tries + 1, place_iters = iters + 1\<rparr>
            else spawn_search g (i + 4) player_x player_y obstacles (tries + 1) (iters + 1))
         else
           Some \<lparr>place_x = x, place_y = y, place_rng = i + 4, place_exit = All_good,
                 place_tries = tries, place_iters = iters + 1\<rparr>)"

record spawned =
  sp_mob :: mob
  sp_rng :: nat
  sp_place :: spawn_place

definition spawn_mob ::
  "rng \<Rightarrow> nat \<Rightarrow> int \<Rightarrow> real \<Rightarrow> real \<Rightarrow> obstacle list \<Rightarrow> spawned option" where
  "spawn_mob g i minute player_x player_y obstacles =
     (case spawn_search g i player_x player_y obstacles 0 0 of
        None \<Rightarrow> None
      | Some pl \<Rightarrow>
          (let j = place_rng pl;
               t = choices_enemy (g j);
               base_hp = 22;
               hp = base_hp + real_of_int (minute * 15) + uniform (- 4) 6 (g (j + 1));
               base_speed = 55;
               speed = base_speed + real_of_int (minute * 8) + uniform (- 8) 8 (g (j + 2));
               cooldown = uniform (8 / 10) (22 / 10) (g (j + 3));
               ident = randint 0 999999 (g (j + 4))
           in Some \<lparr>sp_mob = \<lparr>mob_x = place_x pl, mob_y = place_y pl, mob_hp = hp, mob_speed = speed,
                                 mob_type = t, mob_cooldown = cooldown, mob_id = ident\<rparr>,
                      sp_rng = j + 5, sp_place = pl\<rparr>))"

text \<open>What the retry loop promises about the place it returns, started with the given
  \<open>tries\<close> and iteration count.\<close>

definition place_ok :: "real \<Rightarrow> real \<Rightarrow> obstacle list \<Rightarrow> nat \<Rightarrow> nat \<Rightarrow> spawn_place \<Rightarrow> bool" where
  "place_ok px py obstacles tries iters pl \<longleftrightarrow>
     iters < place_iters pl \<and> place_iters pl + tries \<le> iters + max (tries + 1) 501
     \<and> (if place_exit pl = All_good
         then 300 \<le> distance (place_x pl) (place_y pl) px py \<and> \<not> inside_obs obstacles (place_x pl) (place_y pl)
         else 300 < place_tries pl)"


text \<open>The candidates the retry loop reads from the stream (the one of an iteration that
  starts at stream position \<open>i\<close>), what makes the loop reject one, and the account of a
  search that started at position \<open>i\<close>: how many candidates it read, that all but the last
  were rejected, and what the last one and the returned place are.\<close>

definition candidate :: "rng \<Rightarrow> nat \<Rightarrow> real \<times> real" where
  "candidate g i =
     (let gx = randint 0 (if WORLD_W div GRID_BIAS > 0 then WORLD_W div GRID_BIAS else 1) (g i);
          gy = randint 0 (if WORLD_H div GRID_BIAS > 0 then WORLD_H div GRID_BIAS else 1) (g (i + 1));
          x = real_of_int (gx * GRID_BIAS)
              + uniform (- real_of_int GRID_BIAS / 2) (real_of_int GRID_BIAS / 2) (g (i + 2));
          y = real_of_int (gy * GRID_BIAS)
              + uniform (- real_of_int GRID_BIAS / 2) (real_of_int GRID_BIAS / 2) (g (i + 3))
      in (clamp x 0 (real_of_int WORLD_W), clamp y 0 (real_of_int WORLD_H)))"

definition too_near :: "real \<Rightarrow> real \<Rightarrow> real \<times> real \<Rightarrow> bool" where
  "too_near px py c \<longleftrightarrow> distance (fst c) (snd c) px py < 300"

definition rejected :: "real \<Rightarrow> real \<Rightarrow> obstacle list \<Rightarrow> real \<times> real \<Rightarrow> bool" where
  "rejected px py obstacles c \<longleftrightarrow> too_near px py c \<or> inside_obs obstacles (fst c) (snd c)"

definition traced :: "rng \<Rightarrow> nat \<Rightarrow> real \<Rightarrow> real \<Rightarrow> obstacle list \<Rightarrow> nat \<Rightarrow> nat \<Rightarrow> spawn_place \<Rightarrow> bool" where
  "traced g i px py obstacles tries iters pl \<longleftrightarrow>
     (\<exists>n. place_iters pl = iters + n + 1
        \<and> (\<forall>k<n. rejected px py obstacles (candidate g (i + 4 * k)))
        \<and> (case place_exit pl of
              All_good \<Rightarrow>
                \<not> rejected px py obstacles (candidate g (i + 4 * n))
                \<and> (place_x pl, place_y pl) = candidate g (i + 4 * n)
                \<and> place_tries pl = tries + n \<and> place_rng pl = i + 4 * n + 4
            | Fallback_near_player \<Rightarrow>
                too_near px py (candidate g (i + 4 * n)) \<and> 300 < tries + n + 1
                \<and> place_tries pl = tries + n + 1
                \<and> place_x pl = uniform 0 (real_of_int WORLD_W) (g (i + 4 * n + 4))
                \<and> place_y pl = uniform 0 (real_of_int WORLD_H) (g (i + 4 * n + 5))
                \<and> place_rng pl = i + 4 * n + 6
            | Fallback_inside_obstacle \<Rightarrow>
                \<not> too_near px py (candidate g (i + 4 * n))
                \<and> inside_obs obstacles (fst (candidate g (i + 4 * n))) (snd (candidate g (i + 4 * n)))
                \<and> 500 < tries + n + 1 \<and> place_tries pl = tries + n + 1
                \<and> place_x pl = uniform 0 (real_of_int WORLD_W) (g (i + 4 * n + 4))
                \<and> place_y pl = uniform 0 (real_of_int WORLD_H) (g (i + 4 * n + 5))
                \<and> place_rng pl = i + 4 * n + 6))"

section \<open>The world and one frame's input\<close>

text \<open>
  The main function's local variables that outlive a frame form the world. The random
  stream is a parameter of every function that draws from it; the world holds the
  position of the next draw. A frame's input is what pygame hands the loop: the
  milliseconds \<open>clock.tick(FPS)\<close> returned, the events of \<open>pygame.event.get()\<close> and
  the keys \<open>pygame.key.get_pressed()\<close> reports.
\<close>

record projectile =
  pr_x :: real
  pr_y :: real
  pr_vx :: real
  pr_vy :: real
  pr_speed :: real
  pr_dmg :: real
  pr_owner :: string
  pr_ttl :: real

record lava_pool =
  lava_x :: real
  lava_y :: real
  lava_radius :: real
  lava_duration :: real
  lava_tick :: real

record player =
  pl_x :: real
  pl_y :: real
  pl_hp :: real
  pl_level :: int
  pl_xp :: int
  pl_speed :: real
  pl_attack_cooldown :: real
  pl_attack_timer :: real
  pl_champion :: string
  pl_proj_speed :: real
  pl_proj_dmg :: real
  pl_attack_range :: real
  pl_attack_type :: string

record world =
  w_player :: player
  w_projectile_list :: "projectile list"
  w_lava_pools :: "lava_pool list"
  w_mobs :: "mob list"
  w_obstacles :: "obstacle list"
  w_elapsed :: real
  w_spawn_acc :: real
  w_state :: string
  w_cam_x :: real
  w_cam_y :: real
  w_running :: bool
  w_rng :: nat

datatype key = K_ESCAPE | K_1 | K_2 | K_3 | K_other

datatype event = QUIT | KEYDOWN key | Other_event

record pressed =
  k_RIGHT :: bool
  k_d :: bool
  k_LEFT :: bool
  k_a :: bool
  k_DOWN :: bool
  k_s :: bool
  k_UP :: bool
  k_w :: bool

record frame_input =
  in_tick_ms :: nat
  in_events :: "event list"
  in_keys :: pressed

definition BASE_SPAWN :: real where "BASE_SPAWN = 17 / 10"

definition Player :: "real \<Rightarrow> real \<Rightarrow> player" where
  "Player x y = \<lparr>pl_x = x, pl_y = y, pl_hp = 100, pl_level = 1, pl_xp = 0, pl_speed = 250,
     pl_attack_cooldown = 1 / 2, pl_attack_timer = 0, pl_champion = ''mage'', pl_proj_speed = 420,
     pl_proj_dmg = 20, pl_attack_range = 520, pl_attack_type = ''projectile''\<rparr>"

definition Projectile ::
  "real \<Rightarrow> real \<Rightarrow> real \<Rightarrow> real \<Rightarrow> real \<Rightarrow> real \<Rightarrow> string \<Rightarrow> projectile" where
  "Projectile x y vx vy speed dmg owner =
     \<lparr>pr_x = x, pr_y = y, pr_vx = vx, pr_vy = vy, pr_speed = speed, pr_dmg = dmg,
      pr_owner = owner, pr_ttl = 6\<rparr>"

definition LavaPool :: "real \<Rightarrow> real \<Rightarrow> real \<Rightarrow> real \<Rightarrow> lava_pool" where
  "LavaPool x y radius duration =
     \<lparr>lava_x = x, lava_y = y, lava_radius = radius, lava_duration = duration, lava_tick = 0\<rparr>"

subsection \<open>Champion selection\<close>

definition choose_champion :: "string \<Rightarrow> world \<Rightarrow> world" where
  "choose_champion k w =
     (let p = w_player w;
          p = (if k = ''mage'' then
                 p\<lparr>pl_champion := k, pl_attack_cooldown := 7 / 10, pl_proj_speed := 420,
                   pl_proj_dmg := 28, pl_attack_range := 520, pl_attack_type := ''projectile''\<rparr>
               else if k = ''rogue'' then
                 p\<lparr>pl_champion := k, pl_attack_cooldown := 35 / 100, pl_proj_speed := 650,
                   pl_proj_dmg := 14, pl_attack_range := 620, pl_attack_type := ''projectile''\<rparr>
               else
                 p\<lparr>pl_champion := k, pl_attack_cooldown := 1 / 2, pl_proj_speed := 0,
                   pl_proj_dmg := 36, pl_attack_range := 56, pl_attack_type := ''melee''\<rparr>)
      in w\<lparr>w_player := p, w_state := ''playing''\<rparr>)"

text \<open>The world \<open>main\<close> prepares before the champion menu, for a given obstacle list and
  position in the random stream.\<close>

definition prepare_world :: "obstacle list \<Rightarrow> nat \<Rightarrow> world" where
  "prepare_world obstacles i =
     \<lparr>w_player = Player (real_of_int (WORLD_W div 2)) (real_of_int (WORLD_H div 2)),
      w_projectile_list = [], w_lava_pools = [], w_mobs = [], w_obstacles = obstacles,
      w_elapsed = 0, w_spawn_acc = 0, w_state = ''champ_select'', w_cam_x = 0, w_cam_y = 0,
      w_running = True, w_rng = i\<rparr>"

subsection \<open>Events\<close>

fun handle_event :: "event \<Rightarrow> world \<Rightarrow> world" where
  "handle_event QUIT w = w\<lparr>w_running := False\<rparr>"
| "handle_event (KEYDOWN k) w =
     (let w = (if k = K_ESCAPE then w\<lparr>w_running := False\<rparr> else w)
      in if w_state w = ''levelup'' \<and> (k = K_1 \<or> k = K_2 \<or> k = K_3) then
           (let p = w_player w;
                p = (if k = K_1 then
                       p\<lparr>pl_proj_dmg := pl_proj_dmg p + real_of_int (8 + pl_level p * 2),
                         pl_attack_range := pl_attack_range p + 10\<rparr>
                     else if k = K_2 then p\<lparr>pl_speed := pl_speed p + 40\<rparr>
                     else p\<lparr>pl_hp := pl_hp p + 40\<rparr>);
                w = w\<lparr>w_player := p, w_state := ''playing''\<rparr>
            in w\<lparr>w_player := (w_player w)\<lparr>pl_level := pl_level (w_player w) + 0\<rparr>\<rparr>)
         else w)"
| "handle_event Other_event w = w"

fun handle_events :: "event list \<Rightarrow> world \<Rightarrow> world" where
  "handle_events [] w = w"
| "handle_events (ev # evs) w = handle_events evs (handle_event ev w)"

subsection \<open>Player movement and camera\<close>

fun hits_obstacle :: "obstacle list \<Rightarrow> real \<Rightarrow> real \<Rightarrow> real \<Rightarrow> bool" where
  "hits_obstacle [] x y r = False"
| "hits_obstacle (ob # obs) x y r =
     (if circle_rect_collision x y r (obs_rect ob) then True else hits_obstacle obs x y r)"

definition move_player :: "pressed \<Rightarrow> real \<Rightarrow> world \<Rightarrow> world" where
  "move_player keys dt w =
     (let dx = (of_bool (k_RIGHT keys \<or> k_d keys) :: int) - of_bool (k_LEFT keys \<or> k_a keys);
          dy = (of_bool (k_DOWN keys \<or> k_s keys) :: int) - of_bool (k_UP keys \<or> k_w keys)
      in if dx \<noteq> 0 \<or> dy \<noteq> 0 then
           (let ln = hypot (real_of_int dx) (real_of_int dy);
                dx = real_of_int dx / ln;
                dy = real_of_int dy / ln;
                p = w_player w;
                new_x = pl_x p + dx * pl_speed p * dt;
                new_y = pl_y p + dy * pl_speed p * dt;
                can_move = \<not> hits_obstacle (w_obstacles w) new_x new_y (real_of_int PLAYER_RADIUS)
            in if can_move then
                 w\<lparr>w_player := p\<lparr>pl_x := clamp new_x 0 (real_of_int WORLD_W),
                                   pl_y := clamp new_y 0 (real_of_int WORLD_H)\<rparr>\<rparr>
               else w)
         else w)"

definition update_camera :: "world \<Rightarrow> world" where
  "update_camera w =
     w\<lparr>w_cam_x := clamp (pl_x (w_player w) - real_of_int SCREEN_W / 2) 0 (real_of_int (WORLD_W - SCREEN_W)),
       w_cam_y := clamp (pl_y (w_player w) - real_of_int SCREEN_H / 2) 0 (real_of_int (WORLD_H - SCREEN_H))\<rparr>"

subsection \<open>Spawning during a frame\<close>

definition spawn_interval :: "int \<Rightarrow> real" where
  "spawn_interval minute = max (4 / 10) (BASE_SPAWN - real_of_int minute * (12 / 100))"

partial_function (option) spawn_due :: "rng \<Rightarrow> int \<Rightarrow> world \<Rightarrow> world option" where
  "spawn_due g minute w =
     (if w_spawn_acc w \<ge> spawn_interval minute then
        Option.bind
          (spawn_mob g (w_rng w) minute (pl_x (w_player w)) (pl_y (w_player w)) (w_obstacles w))
          (\<lambda>sp. spawn_due g minute
                  (w\<lparr>w_spawn_acc := w_spawn_acc w - spawn_interval minute,
                     w_mobs := w_mobs w @ [sp_mob sp], w_rng := sp_rng sp\<rparr>))
      else Some w)"

subsection \<open>Mobs\<close>

text \<open>
  The loops over \<open>mobs[:]\<close>, \<open>projectile_list[:]\<close> and \<open>lava_pools[:]\<close> walk a snapshot
  and remove the element at hand from the live list. The functions below walk the
  snapshot and collect the elements that stay, in order; the live list is written back
  when the walk ends. Nothing reads the live list of the kind being walked before
  that. (\<open>remove\<close> compares by value and takes the first equal element; elements in
  front of the one at hand were kept by the same tests, so the first equal element is
  the one at hand.)
\<close>

definition radians :: "real \<Rightarrow> real" where
  "radians d = d * pi / 180"

definition toward :: "real \<Rightarrow> real \<Rightarrow> real \<Rightarrow> real \<times> real" where
  "toward vx vy ang = (let ca = cos ang; sa = sin ang in (vx * ca - vy * sa, vx * sa + vy * ca))"

definition away :: "real \<Rightarrow> real \<Rightarrow> real \<Rightarrow> real \<times> real" where
  "away vx vy ang = (let ca = cos ang; sa = sin ang in (- vx * ca + vy * sa, - vx * sa - vy * ca))"

fun steer :: "obstacle list \<Rightarrow> mob \<Rightarrow> real \<Rightarrow> (real \<times> real) list \<Rightarrow> mob" where
  "steer obstacles m step [] = m"
| "steer obstacles m step ((dx_unit, dy_unit) # dirs) =
     (let nx = mob_x m + dx_unit * step;
          ny = mob_y m + dy_unit * step
      in if hits_obstacle obstacles nx ny (real_of_int MOB_RADIUS) then steer obstacles m step dirs
         else m\<lparr>mob_x := clamp nx 0 (real_of_int WORLD_W), mob_y := clamp ny 0 (real_of_int WORLD_H)\<rparr>)"

definition hurt_player :: "real \<Rightarrow> world \<Rightarrow> world" where
  "hurt_player d w = w\<lparr>w_player := (w_player w)\<lparr>pl_hp := pl_hp (w_player w) - d\<rparr>\<rparr>"

definition update_melee :: "real \<Rightarrow> mob \<Rightarrow> world \<Rightarrow> mob \<times> world" where
  "update_melee dt m w =
     (let p = w_player w;
          vx = pl_x p - mob_x m;
          vy = pl_y p - mob_y m;
          dist = (if hypot vx vy = 0 then 1 else hypot vx vy);
          vx = vx / dist;
          vy = vy / dist;
          step = mob_speed m * dt;
          angles = [0, radians 30, radians (- 30), radians 60, radians (- 60), radians 100, radians (- 100)];
          m = steer (w_obstacles w) m step (map (toward vx vy) angles)
      in if distance (mob_x m) (mob_y m) (pl_x p) (pl_y p) \<le> real_of_int (MOB_RADIUS + PLAYER_RADIUS)
         then (m, hurt_player (12 * dt) w)
         else (m, w))"

definition update_shooter :: "rng \<Rightarrow> int \<Rightarrow> real \<Rightarrow> mob \<Rightarrow> world \<Rightarrow> mob \<times> world" where
  "update_shooter g minute dt m w =
     (let p = w_player w;
          vx = pl_x p - mob_x m;
          vy = pl_y p - mob_y m;
          dist = (if hypot vx vy = 0 then 1 else hypot vx vy);
          vx = vx / dist;
          vy = vy / dist;
          desired = 380;
          m = (if dist > desired then
                 steer (w_obstacles w) m (mob_speed m * 1 * dt)
                   (map (toward vx vy) [0, radians 25, radians (- 25), radians 50, radians (- 50)])
               else if dist < desired - 60 then
                 steer (w_obstacles w) m (mob_speed m * 1 * dt)
                   (map (away vx vy) [0, radians 25, radians (- 25)])
               else m)
      in if mob_cooldown m \<le> 0 \<and> dist \<le> 700 then
           (let ps = 420;
                pvx = vx * ps;
                pvy = vy * ps;
                w = w\<lparr>w_projectile_list := w_projectile_list w
                        @ [Projectile (mob_x m) (mob_y m) pvx pvy ps (real_of_int (18 + minute * 2)) ''mob'']\<rparr>
            in (m\<lparr>mob_cooldown := uniform (12 / 10) 2 (g (w_rng w))\<rparr>, w\<lparr>w_rng := w_rng w + 1\<rparr>))
         else (m, w))"

definition update_lava_mob :: "rng \<Rightarrow> real \<Rightarrow> mob \<Rightarrow> world \<Rightarrow> mob \<times> world" where
  "update_lava_mob g dt m w =
     (let ang = uniform 0 (2 * pi) (g (w_rng w));
          w = w\<lparr>w_rng := w_rng w + 1\<rparr>;
          nx = mob_x m + cos ang * mob_speed m * (25 / 100) * dt;
          ny = mob_y m + sin ang * mob_speed m * (25 / 100) * dt;
          blocked = hits_obstacle (w_obstacles w) nx ny (real_of_int MOB_RADIUS);
          m = (if \<not> blocked then
                 m\<lparr>mob_x := clamp nx 0 (real_of_int WORLD_W), mob_y := clamp ny 0 (real_of_int WORLD_H)\<rparr>
               else m)
      in if mob_cooldown m \<le> 0 then
           (let w = w\<lparr>w_lava_pools := w_lava_pools w
                        @ [LavaPool (mob_x m) (mob_y m) (real_of_int LAVA_RADIUS)
                             (6 + uniform (- 1) 2 (g (w_rng w)))]\<rparr>;
                w = w\<lparr>w_rng := w_rng w + 1\<rparr>;
                m = m\<lparr>mob_cooldown := 4 + uniform 0 3 (g (w_rng w))\<rparr>
            in (m, w\<lparr>w_rng := w_rng w + 1\<rparr>))
         else (m, w))"

definition update_mob :: "rng \<Rightarrow> int \<Rightarrow> real \<Rightarrow> mob \<Rightarrow> world \<Rightarrow> mob \<times> world" where
  "update_mob g minute dt m w =
     (let m = m\<lparr>mob_cooldown := max 0 (mob_cooldown m - dt)\<rparr>
      in if mob_type m = ''melee'' then update_melee dt m w
         else if mob_type m = ''shooter'' then update_shooter g minute dt m w
         else if mob_type m = ''lava'' then update_lava_mob g dt m w
         else (m, w))"

fun update_mobs :: "rng \<Rightarrow> int \<Rightarrow> real \<Rightarrow> mob list \<Rightarrow> mob list \<Rightarrow> world \<Rightarrow> world" where
  "update_mobs g minute dt kept [] w = w\<lparr>w_mobs := kept\<rparr>"
| "update_mobs g minute dt kept (m # rest) w =
     (case update_mob g minute dt m w of
        (m, w) \<Rightarrow>
          if mob_hp m \<le> 0 then
            update_mobs g minute dt kept rest
              (w\<lparr>w_player := (w_player w)\<lparr>pl_xp := pl_xp (w_player w) + 1\<rparr>\<rparr>)
          else update_mobs g minute dt (kept @ [m]) rest w)"

subsection \<open>Projectiles and lava pools\<close>

fun hit_first_mob :: "real \<Rightarrow> real \<Rightarrow> real \<Rightarrow> mob list \<Rightarrow> mob list option" where
  "hit_first_mob x y dmg [] = None"
| "hit_first_mob x y dmg (m # ms) =
     (if distance x y (mob_x m) (mob_y m) \<le> real_of_int (MOB_RADIUS + 6)
      then Some (m\<lparr>mob_hp := mob_hp m - dmg\<rparr> # ms)
      else map_option ((#) m) (hit_first_mob x y dmg ms))"

fun update_projectiles :: "real \<Rightarrow> projectile list \<Rightarrow> projectile list \<Rightarrow> world \<Rightarrow> world" where
  "update_projectiles dt kept [] w = w\<lparr>w_projectile_list := kept\<rparr>"
| "update_projectiles dt kept (p # rest) w =
     (let p = p\<lparr>pr_ttl := pr_ttl p - dt\<rparr>;
          p = p\<lparr>pr_x := pr_x p + pr_vx p * dt\<rparr>;
          p = p\<lparr>pr_y := pr_y p + pr_vy p * dt\<rparr>
      in if pr_ttl p \<le> 0 \<or> \<not> (0 \<le> pr_x p \<and> pr_x p \<le> real_of_int WORLD_W
                               \<and> 0 \<le> pr_y p \<and> pr_y p \<le> real_of_int WORLD_H) then
           update_projectiles dt kept rest w
         else if hits_obstacle (w_obstacles w) (pr_x p) (pr_y p) 4 then
           update_projectiles dt kept rest w
         else if pr_owner p = ''mob''
                 \<and> distance (pr_x p) (pr_y p) (pl_x (w_player w)) (pl_y (w_player w))
                     \<le> real_of_int (PLAYER_RADIUS + 6) then
           update_projectiles dt kept rest (hurt_player (pr_dmg p) w)
         else if pr_owner p = ''player'' then
           (case hit_first_mob (pr_x p) (pr_y p) (pr_dmg p) (w_mobs w) of
              Some ms \<Rightarrow> update_projectiles dt kept rest (w\<lparr>w_mobs := ms\<rparr>)
            | None \<Rightarrow> update_projectiles dt (kept @ [p]) rest w)
         else update_projectiles dt (kept @ [p]) rest w)"

fun update_lava_pools :: "real \<Rightarrow> lava_pool list \<Rightarrow> lava_pool list \<Rightarrow> world \<Rightarrow> world" where
  "update_lava_pools dt kept [] w = w\<lparr>w_lava_pools := kept\<rparr>"
| "update_lava_pools dt kept (lava # rest) w =
     (let lava = lava\<lparr>lava_duration := lava_duration lava - dt\<rparr>;
          lava = lava\<lparr>lava_tick := lava_tick lava + dt\<rparr>
      in if lava_duration lava \<le> 0 then update_lava_pools dt kept rest w
         else if distance (pl_x (w_player w)) (pl_y (w_player w)) (lava_x lava) (lava_y lava)
                   \<le> lava_radius lava then
           update_lava_pools dt (kept @ [lava]) rest (hurt_player (28 * dt) w)
         else update_lava_pools dt (kept @ [lava]) rest w)"

subsection \<open>The player's attack, levelling, and the end of the level\<close>

fun nearest_mob :: "real \<Rightarrow> real \<Rightarrow> mob \<Rightarrow> mob list \<Rightarrow> mob" where
  "nearest_mob x y best [] = best"
| "nearest_mob x y best (m # ms) =
     nearest_mob x y
       (if distance x y (mob_x m) (mob_y m) < distance x y (mob_x best) (mob_y best) then m else best) ms"

definition player_attack :: "real \<Rightarrow> world \<Rightarrow> world" where
  "player_attack dt w =
     (let p = (w_player w)\<lparr>pl_attack_timer := pl_attack_timer (w_player w) - dt\<rparr>;
          w = w\<lparr>w_player := p\<rparr>
      in if pl_attack_timer p \<le> 0 then
           (case w_mobs w of
              [] \<Rightarrow> w
            | m0 # ms \<Rightarrow>
                (let nearest = nearest_mob (pl_x p) (pl_y p) m0 ms;
                     dist = distance (pl_x p) (pl_y p) (mob_x nearest) (mob_y nearest)
                 in if dist \<le> pl_attack_range p then
                      (if pl_attack_type p = ''projectile'' then
                         (let dx = (mob_x nearest - pl_x p) / (if dist = 0 then 1 else dist);
                              dy = (mob_y nearest - pl_y p) / (if dist = 0 then 1 else dist);
                              pvx = dx * pl_proj_speed p;
                              pvy = dy * pl_proj_speed p
                          in w\<lparr>w_projectile_list := w_projectile_list w
                                 @ [Projectile (pl_x p) (pl_y p) pvx pvy (pl_proj_speed p) (pl_proj_dmg p) ''player''],
                               w_player := p\<lparr>pl_attack_timer := pl_attack_cooldown p\<rparr>\<rparr>)
                       else
                         w\<lparr>w_mobs := map (\<lambda>m. if distance (pl_x p) (pl_y p) (mob_x m) (mob_y m)
                                                  \<le> pl_attack_range p + real_of_int MOB_RADIUS
                                               then m\<lparr>mob_hp := mob_hp m - pl_proj_dmg p\<rparr> else m)
                                         (w_mobs w),
                           w_player := p\<lparr>pl_attack_timer := pl_attack_cooldown p\<rparr>\<rparr>)
                    else w))
         else w)"

definition level_up_check :: "world \<Rightarrow> world" where
  "level_up_check w =
     (if pl_xp (w_player w) \<ge> pl_level (w_player w) * 5 then
        w\<lparr>w_player := (w_player w)\<lparr>pl_level := pl_level (w_player w) + 1\<rparr>, w_state := ''levelup''\<rparr>
      else w)"

definition win_death_check :: "world \<Rightarrow> world" where
  "win_death_check w =
     (let w = (if w_elapsed w \<ge> real_of_int LEVEL_DURATION_SECONDS then w\<lparr>w_state := ''win''\<rparr> else w)
      in if pl_hp (w_player w) \<le> 0 then w\<lparr>w_state := ''dead''\<rparr> else w)"

subsection \<open>One iteration of the main loop\<close>

definition simulate :: "rng \<Rightarrow> int \<Rightarrow> real \<Rightarrow> world \<Rightarrow> world" where
  "simulate g minute dt w =
     (let w = update_mobs g minute dt [] (w_mobs w) w;
          w = update_projectiles dt [] (w_projectile_list w) w;
          w = update_lava_pools dt [] (w_lava_pools w) w;
          w = player_attack dt w;
          w = level_up_check w
      in win_death_check w)"

definition playing_frame :: "rng \<Rightarrow> int \<Rightarrow> real \<Rightarrow> pressed \<Rightarrow> world \<Rightarrow> world option" where
  "playing_frame g minute dt keys w =
     (let w = move_player keys dt w;
          w = update_camera w;
          w = w\<lparr>w_spawn_acc := w_spawn_acc w + dt\<rparr>
      in Option.bind (spawn_due g minute w) (\<lambda>w. Some (simulate g minute dt w)))"

definition draw :: "world \<Rightarrow> world" where
  "draw w =
     (if w_state w = ''playing'' \<or> w_state w = ''levelup'' \<or> w_state w = ''dead'' \<or> w_state w = ''win''
      then update_camera w else w)"

definition frame :: "rng \<Rightarrow> frame_input \<Rightarrow> world \<Rightarrow> world option" where
  "frame g inp w =
     (let dt = real (in_tick_ms inp) / 1000;
          w = w\<lparr>w_elapsed := w_elapsed w + dt\<rparr>;
          minute = \<lfloor>w_elapsed w / 60\<rfloor>;
          w = handle_events (in_events inp) w
      in Option.bind
           (if w_state w = ''playing'' then playing_frame g minute dt (in_keys inp) w else Some w)
           (\<lambda>w. Some (draw w)))"

fun run :: "rng \<Rightarrow> frame_input list \<Rightarrow> world \<Rightarrow> world option" where
  "run g [] w = Some w"
| "run g (inp # inps) w =
     (if w_running w then Option.bind (frame g inp w) (run g inps) else Some w)"

subsection \<open>Names for parts of a frame\<close>

text \<open>These name intermediate worlds of a frame, for the lemmas: what the simulation
  phases never write (\<open>core\<close> blanks what they do write), the world after the four
  update phases, after movement, and after the clock and the events.\<close>

definition core :: "world \<Rightarrow> world" where
  "core w = w\<lparr>w_player := (w_player w)\<lparr>pl_hp := 0, pl_xp := 0, pl_attack_timer := 0\<rparr>,
             w_projectile_list := [], w_lava_pools := [], w_mobs := [], w_rng := 0\<rparr>"

definition fought :: "rng \<Rightarrow> int \<Rightarrow> real \<Rightarrow> world \<Rightarrow> world" where
  "fought g minute dt w =
     player_attack dt
       (let w = update_mobs g minute dt [] (w_mobs w) w;
            w = update_projectiles dt [] (w_projectile_list w) w
        in update_lava_pools dt [] (w_lava_pools w) w)"

definition entered :: "pressed \<Rightarrow> real \<Rightarrow> world \<Rightarrow> world" where
  "entered keys dt w = (update_camera (move_player keys dt w))\<lparr>w_spawn_acc := w_spawn_acc w + dt\<rparr>"

definition ticked :: "frame_input \<Rightarrow> world \<Rightarrow> world" where
  "ticked inp w = handle_events (in_events inp) (w\<lparr>w_elapsed := w_elapsed w + real (in_tick_ms inp) / 1000\<rparr>)"
section \<open>Concrete worlds\<close>

text \<open>Worlds and inputs at which the theorems are instantiated: two obstacles, a constant
  random stream, the mage at the world centre right after champion selection, and a frame
  of 20 ms with no event and no key held.\<close>

definition sample_obstacles :: "obstacle list" where
  "sample_obstacles = [\<lparr>obs_rect = Rect 100 100 60 60, obs_kind = ''tree''\<rparr>,
                       \<lparr>obs_rect = Rect 2000 1500 80 50, obs_kind = ''rock''\<rparr>]"

definition half :: rng where "half = (\<lambda>_. 1 / 2)"

definition mage :: player where
  "mage = \<lparr>pl_x = 1200, pl_y = 900, pl_hp = 100, pl_level = 1, pl_xp = 0, pl_speed = 250,
     pl_attack_cooldown = 7 / 10, pl_attack_timer = 0, pl_champion = ''mage'', pl_proj_speed = 420,
     pl_proj_dmg = 28, pl_attack_range = 520, pl_attack_type = ''projectile''\<rparr>"

definition start_world :: world where
  "start_world = \<lparr>w_player = mage, w_projectile_list = [], w_lava_pools = [], w_mobs = [],
      w_obstacles = sample_obstacles, w_elapsed = 0, w_spawn_acc = 0, w_state = ''playing'',
      w_cam_x = 0, w_cam_y = 0, w_running = True, w_rng = 0\<rparr>"

definition no_keys :: pressed where
  "no_keys = \<lparr>k_RIGHT = False, k_d = False, k_LEFT = False, k_a = False,
              k_DOWN = False, k_s = False, k_UP = False, k_w = False\<rparr>"

definition idle_input :: frame_input where
  "idle_input = \<lparr>in_tick_ms = 20, in_events = [], in_keys = no_keys\<rparr>"

definition dying_world :: world where
  "dying_world = start_world\<lparr>w_player := mage\<lparr>pl_hp := 1 / 10\<rparr>,
      w_lava_pools := [\<lparr>lava_x = 1200, lava_y = 900, lava_radius = 60, lava_duration = 5, lava_tick = 1\<rparr>],
      w_elapsed := 59999 / 100\<rparr>"

definition dead_world :: world where
  "dead_world = dying_world\<lparr>w_player := mage\<lparr>pl_hp := - 23 / 50, pl_attack_timer := - 1 / 50\<rparr>,
        w_lava_pools := [\<lparr>lava_x = 1200, lava_y = 900, lava_radius = 60, lava_duration = 249 / 50, lava_tick = 51 / 50\<rparr>],
        w_elapsed := 60001 / 100, w_spawn_acc := 1 / 50, w_cam_x := 800, w_cam_y := 600, w_state := ''dead''\<rparr>"

definition slain :: mob where
  "slain = \<lparr>mob_x = 1500, mob_y = 900, mob_hp = - 5, mob_speed = 50, mob_type = ''melee'',
             mob_cooldown = 1, mob_id = 7\<rparr>"

definition levelling_at :: "real \<Rightarrow> world" where
  "levelling_at e = start_world\<lparr>w_player := mage\<lparr>pl_xp := 4\<rparr>, w_mobs := [slain], w_elapsed := e\<rparr>"

definition levelled_at :: "real \<Rightarrow> string \<Rightarrow> world" where
  "levelled_at e s = start_world\<lparr>w_player := mage\<lparr>pl_xp := 5, pl_level := 2, pl_attack_timer := - 1 / 50\<rparr>,
      w_elapsed := e, w_spawn_acc := 1 / 50, w_cam_x := 800, w_cam_y := 600, w_state := s\<rparr>"

definition no_direction :: "pressed \<Rightarrow> bool" where
  "no_direction keys \<longleftrightarrow>
     \<not> (k_RIGHT keys \<or> k_d keys \<or> k_LEFT keys \<or> k_a keys \<or> k_DOWN keys \<or> k_s keys \<or> k_UP keys \<or> k_w keys)"

definition quiet :: "world \<Rightarrow> bool" where
  "quiet w \<longleftrightarrow> w_state w = ''playing'' \<and> w_running w \<and> w_mobs w = [] \<and> w_projectile_list w = []
     \<and> w_lava_pools w = [] \<and> 0 < pl_hp (w_player w) \<and> pl_xp (w_player w) < pl_level (w_player w) * 5"

definition seconds :: "frame_input list \<Rightarrow> real" where
  "seconds inps = real (sum_list (map in_tick_ms inps)) / 1000"

definition ambusher :: mob where
  "ambusher = \<lparr>mob_x = 1200, mob_y = 900, mob_hp = 23, mob_speed = 55, mob_type = ''melee'',
                mob_cooldown = 3 / 2, mob_id = 500000\<rparr>"

definition contact :: "world \<Rightarrow> mob \<Rightarrow> bool" where
  "contact w m \<longleftrightarrow>
     distance (mob_x m) (mob_y m) (pl_x (w_player w)) (pl_y (w_player w)) \<le> real_of_int (MOB_RADIUS + PLAYER_RADIUS)"

definition touches :: "world \<Rightarrow> real \<Rightarrow> mob \<Rightarrow> bool" where
  "touches w dt m \<longleftrightarrow>
     mob_type m = ''melee''
     \<and> contact w (fst (update_melee dt (m\<lparr>mob_cooldown := max 0 (mob_cooldown m - dt)\<rparr>) w))"

definition strikes :: "world \<Rightarrow> real \<Rightarrow> projectile \<Rightarrow> bool" where
  "strikes w dt p \<longleftrightarrow>
     (let x = pr_x p + pr_vx p * dt; y = pr_y p + pr_vy p * dt
      in \<not> (pr_ttl p - dt \<le> 0 \<or> \<not> (0 \<le> x \<and> x \<le> real_of_int WORLD_W \<and> 0 \<le> y \<and> y \<le> real_of_int WORLD_H))
         \<and> \<not> hits_obstacle (w_obstacles w) x y 4
         \<and> pr_owner p = ''mob''
         \<and> distance x y (pl_x (w_player w)) (pl_y (w_player w)) \<le> real_of_int (PLAYER_RADIUS + 6))"

definition burns :: "world \<Rightarrow> real \<Rightarrow> lava_pool \<Rightarrow> bool" where
  "burns w dt l \<longleftrightarrow>
     \<not> lava_duration l - dt \<le> 0
     \<and> distance (pl_x (w_player w)) (pl_y (w_player w)) (lava_x l) (lava_y l) \<le> lava_radius l"

text \<open>The part of the world the three tests above read.\<close>

definition scene :: "world \<Rightarrow> real \<times> real \<times> obstacle list" where
  "scene w = (pl_x (w_player w), pl_y (w_player w), w_obstacles w)"

definition brawler :: mob where
  "brawler = \<lparr>mob_x = 1220, mob_y = 900, mob_hp = 20, mob_speed = 50, mob_type = ''melee'',
               mob_cooldown = 1, mob_id = 3\<rparr>"

definition brawl_world :: world where
  "brawl_world = start_world\<lparr>w_mobs := [brawler]\<rparr>"

definition brawl_arena :: world where
  "brawl_arena = start_world\<lparr>w_mobs := [brawler], w_elapsed := 1 / 50, w_spawn_acc := 1 / 50,
      w_cam_x := 800, w_cam_y := 600\<rparr>"

definition sniper_stream :: rng where
  "sniper_stream = (\<lambda>i. if i = 0 then 17 / 26 else if i = 1 then 11 / 20 else if i = 2 then 7 / 8
      else if i = 3 then 0 else if i = 4 then 7 / 10 else if i = 7 then 0 else 1 / 2)"

definition lull_input :: frame_input where
  "lull_input = \<lparr>in_tick_ms = 700, in_events = [], in_keys = no_keys\<rparr>"

definition second_input :: frame_input where
  "second_input = \<lparr>in_tick_ms = 1000, in_events = [], in_keys = no_keys\<rparr>"

definition lull_world :: world where
  "lull_world = start_world\<lparr>w_player := mage\<lparr>pl_attack_timer := - 7 / 10\<rparr>,
      w_elapsed := 7 / 10, w_spawn_acc := 7 / 10, w_cam_x := 800, w_cam_y := 600\<rparr>"

definition sniper :: mob where
  "sniper = \<lparr>mob_x = 1675, mob_y = 900, mob_hp = 23, mob_speed = 55, mob_type = ''shooter'',
              mob_cooldown = 4 / 5, mob_id = 500000\<rparr>"

definition sniped_world :: world where
  "sniped_world = start_world\<lparr>w_player := mage\<lparr>pl_hp := 82, pl_attack_timer := 7 / 10\<rparr>,
      w_mobs := [sniper\<lparr>mob_cooldown := 8 / 5, mob_x := 1620\<rparr>],
      w_projectile_list := [Projectile 1200 900 420 0 420 28 ''player''],
      w_elapsed := 17 / 10, w_spawn_acc := 0, w_cam_x := 800, w_cam_y := 600, w_rng := 10\<rparr>"

definition raider :: "int \<Rightarrow> mob" where
  "raider minute = \<lparr>mob_x = 1200, mob_y = 900, mob_hp = 23 + real_of_int (minute * 15),
      mob_speed = 55 + real_of_int (minute * 8), mob_type = ''melee'', mob_cooldown = 3 / 2,
      mob_id = 500000\<rparr>"

definition age_input :: frame_input where
  "age_input = \<lparr>in_tick_ms = 600000, in_events = [], in_keys = no_keys\<rparr>"

definition knight :: player where
  "knight = \<lparr>pl_x = 1200, pl_y = 900, pl_hp = 100, pl_level = 1, pl_xp = 0, pl_speed = 250,
     pl_attack_cooldown = 1 / 2, pl_attack_timer = 0, pl_champion = ''knight'', pl_proj_speed = 0,
     pl_proj_dmg = 36, pl_attack_range = 56, pl_attack_type = ''melee''\<rparr>"

definition waiting :: "real \<Rightarrow> int \<Rightarrow> real \<Rightarrow> real \<Rightarrow> nat \<Rightarrow> world" where
  "waiting hp xp tm el r =
     \<lparr>w_player = knight\<lparr>pl_hp := hp, pl_xp := xp, pl_attack_timer := tm\<rparr>,
      w_projectile_list = [], w_lava_pools = [], w_mobs = [], w_obstacles = sample_obstacles,
      w_elapsed = el, w_spawn_acc = 8 / 5, w_state = ''playing'', w_cam_x = 800, w_cam_y = 600,
      w_running = True, w_rng = r\<rparr>"

definition struck :: "real \<Rightarrow> int \<Rightarrow> real \<Rightarrow> nat \<Rightarrow> world" where
  "struck hp xp el r =
     \<lparr>w_player = knight\<lparr>pl_hp := hp, pl_xp := xp, pl_attack_timer := 1 / 2\<rparr>,
      w_projectile_list = [], w_lava_pools = [],
      w_mobs = [(raider 0)\<lparr>mob_cooldown := 7 / 5, mob_hp := - 13\<rparr>],
      w_obstacles = sample_obstacles,
      w_elapsed = el, w_spawn_acc = 0, w_state = ''playing'', w_cam_x = 800, w_cam_y = 600,
      w_running = True, w_rng = r\<rparr>"

definition fallen :: world where
  "fallen = (waiting (- 2) 5 (- 11 / 10) (101 / 10) 6055)
      \<lparr>w_player := knight\<lparr>pl_hp := - 2, pl_xp := 5, pl_attack_timer := - 11 / 10, pl_level := 2\<rparr>,
       w_state := ''dead''\<rparr>"

definition wait_input :: frame_input where
  "wait_input = \<lparr>in_tick_ms = 1600, in_events = [], in_keys = no_keys\<rparr>"

definition jab_input :: frame_input where
  "jab_input = \<lparr>in_tick_ms = 100, in_events = [], in_keys = no_keys\<rparr>"

section \<open>Generating the obstacles\<close>

text \<open>
  \<open>generate_obstacles\<close> draws from the same stream. \<open>random.shuffle\<close> is the loop of
  CPython's \<open>random.py\<close> (for \<open>i\<close> from \<open>n - 1\<close> down to 1, swap \<open>x[i]\<close> and
  \<open>x[randbelow(i + 1)]\<close>), \<open>random.choice(seq)\<close> is \<open>seq[randbelow(len(seq))]\<close>, and
  \<open>randbelow(n)\<close> is idealised as the floor of \<open>random() * n\<close>, one draw, as \<open>randint\<close>
  is. \<open>int()\<close> truncates towards zero.

  The \<open>for\<close> loop over the shuffled candidates, with its \<open>break\<close>, is
  \<open>place_candidates\<close>; the \<open>while\<close> loop that follows is \<open>random_placement\<close>, which ends
  because \<open>extra_tries\<close> grows in every iteration; \<open>scatter\<close> runs the two, and
  \<open>prune_clusters\<close> is the post-process. In \<open>connected_components\<close> the loop
  \<open>while stack\<close> is \<open>flood\<close> and its inner \<open>for v in adj[u]\<close> is \<open>visit\<close>; there
  \<open>None\<close> stands for a list index out of range or for a loop that does not end. The
  source's local variable \<open>comp\<close> is written \<open>cmp\<close>. The result carries the position
  reached in the random stream.
\<close>

definition kinds :: "string list" where
  "kinds = [''tree'', ''rock'', ''house'', ''water'', ''hay'']"

definition randbelow :: "nat \<Rightarrow> real \<Rightarrow> nat" where
  "randbelow n u = nat \<lfloor>u * real n\<rfloor>"

definition choice :: "'a list \<Rightarrow> real \<Rightarrow> 'a" where
  "choice xs u = xs ! randbelow (length xs) u"

definition int_trunc :: "real \<Rightarrow> int" where
  "int_trunc v = (if 0 \<le> v then \<lfloor>v\<rfloor> else \<lceil>v\<rceil>)"

definition x_cells :: int where "x_cells = max 4 (WORLD_W div GRID_BIAS)"

definition y_cells :: int where "y_cells = max 4 (WORLD_H div GRID_BIAS)"

definition grid_center :: "rng \<Rightarrow> nat \<Rightarrow> nat \<Rightarrow> nat \<Rightarrow> int \<times> int" where
  "grid_center g r gx gy =
     (int_trunc ((real gx + 1 / 2) * real_of_int WORLD_W / real_of_int x_cells
        + uniform (- real_of_int GRID_BIAS / 3) (real_of_int GRID_BIAS / 3) (g r)),
      int_trunc ((real gy + 1 / 2) * real_of_int WORLD_H / real_of_int y_cells
        + uniform (- real_of_int GRID_BIAS / 3) (real_of_int GRID_BIAS / 3) (g (r + 1))))"

definition grid_candidates :: "rng \<Rightarrow> nat \<Rightarrow> (int \<times> int) list" where
  "grid_candidates g r =
     concat (map (\<lambda>gx. map (\<lambda>gy. grid_center g (r + 2 * (gx * nat y_cells + gy)) gx gy)
                          [0..<nat y_cells])
                [0..<nat x_cells])"

primrec shuffle_down :: "rng \<Rightarrow> nat \<Rightarrow> nat \<Rightarrow> 'a list \<Rightarrow> 'a list" where
  "shuffle_down g r 0 xs = xs"
| "shuffle_down g r (Suc i) xs =
     (let j = randbelow (Suc i + 1) (g r)
      in shuffle_down g (r + 1) i (xs[Suc i := xs ! j, j := xs ! Suc i]))"

definition shuffle :: "rng \<Rightarrow> nat \<Rightarrow> 'a list \<Rightarrow> 'a list" where
  "shuffle g r xs = shuffle_down g r (length xs - 1) xs"

definition center_area :: rect where
  "center_area = Rect (WORLD_W div 2 - 400) (WORLD_H div 2 - 300) 800 600"

definition near :: "rect \<Rightarrow> rect \<Rightarrow> bool" where
  "near a b \<longleftrightarrow>
     distance (real_of_int (centerx a)) (real_of_int (centery a))
              (real_of_int (centerx b)) (real_of_int (centery b)) < real_of_int NEAR_RADIUS"

definition overlapped :: "rect \<Rightarrow> obstacle list \<Rightarrow> bool" where
  "overlapped rc obs =
     list_ex (\<lambda>ob. colliderect (inflate rc (OBSTACLE_SAFETY_MARGIN * 2) (OBSTACLE_SAFETY_MARGIN * 2))
                               (obs_rect ob)) obs"

fun nearby_capped :: "rect \<Rightarrow> obstacle list \<Rightarrow> nat \<Rightarrow> nat" where
  "nearby_capped rc [] nearby = nearby"
| "nearby_capped rc (ob # obs) nearby =
     (if near (obs_rect ob) rc
      then (if MAX_NEARBY_OBSTACLES \<le> nearby + 1 then nearby + 1 else nearby_capped rc obs (nearby + 1))
      else nearby_capped rc obs nearby)"

fun place_candidates ::
  "rng \<Rightarrow> nat \<Rightarrow> nat \<Rightarrow> (int \<times> int) list \<Rightarrow> nat \<Rightarrow> nat \<Rightarrow> obstacle list \<Rightarrow> obstacle list \<times> nat" where
  "place_candidates g count max_tries [] tries r obs = (obs, r)"
| "place_candidates g count max_tries ((cx, cy) # rest) tries r obs =
     (if count \<le> length obs \<or> max_tries \<le> tries then (obs, r)
      else let w = randint 40 160 (g r);
               h = randint 40 140 (g (r + 1));
               x = clamp (cx + randint ((- GRID_BIAS) div 2) (GRID_BIAS div 2) (g (r + 2))) 0 (WORLD_W - w);
               y = clamp (cy + randint ((- GRID_BIAS) div 2) (GRID_BIAS div 2) (g (r + 3))) 0 (WORLD_H - h);
               rc = Rect x y w h
           in if colliderect rc center_area
              then place_candidates g count max_tries rest (tries + 1) (r + 4) obs
              else if overlapped rc obs
              then place_candidates g count max_tries rest (tries + 1) (r + 4) obs
              else if MAX_NEARBY_OBSTACLES \<le> nearby_capped rc obs 0
              then place_candidates g count max_tries rest (tries + 1) (r + 4) obs
              else place_candidates g count max_tries rest (tries + 1) (r + 5)
                     (obs @ [\<lparr>obs_rect = rc, obs_kind = choice kinds (g (r + 4))\<rparr>]))"

function random_placement ::
  "rng \<Rightarrow> nat \<Rightarrow> nat \<Rightarrow> nat \<Rightarrow> obstacle list \<Rightarrow> obstacle list \<times> nat" where
  "random_placement g count extra_tries r obs =
     (if length obs < count \<and> extra_tries < count * 12
      then let w = randint 40 140 (g r);
               h = randint 40 120 (g (r + 1));
               x = randint 0 (WORLD_W - w) (g (r + 2));
               y = randint 0 (WORLD_H - h) (g (r + 3));
               rc = Rect x y w h
           in if colliderect rc center_area
              then random_placement g count (extra_tries + 1) (r + 4) obs
              else if overlapped rc obs
              then random_placement g count (extra_tries + 1) (r + 4) obs
              else if MAX_NEARBY_OBSTACLES \<le> length (filter (\<lambda>ob. near (obs_rect ob) rc) obs)
              then random_placement g count (extra_tries + 1) (r + 4) obs
              else random_placement g count (extra_tries + 1) (r + 5)
                     (obs @ [\<lparr>obs_rect = rc, obs_kind = choice kinds (g (r + 4))\<rparr>])
      else (obs, r))"
  by pat_completeness auto
termination
  by (relation "measure (\<lambda>(g, count, extra_tries, r, obs). count * 12 - extra_tries)") auto

definition build_adj_list :: "obstacle list \<Rightarrow> nat list list" where
  "build_adj_list ob_list =
     (let n = length ob_list
      in fold (\<lambda>i. fold (\<lambda>j adj.
                 if near (obs_rect (ob_list ! i)) (obs_rect (ob_list ! j))
                 then (let adj1 = adj[i := adj ! i @ [j]] in adj1[j := adj1 ! j @ [i]])
                 else adj) [i + 1..<n])
           [0..<n] (replicate n []))"

fun visit :: "nat list \<Rightarrow> bool list \<Rightarrow> nat list \<Rightarrow> (bool list \<times> nat list) option" where
  "visit [] visited stack = Some (visited, stack)"
| "visit (v # vs) visited stack =
     (if length visited \<le> v then None
      else if \<not> visited ! v then visit vs (visited[v := True]) (stack @ [v])
      else visit vs visited stack)"

partial_function (option) flood ::
  "nat list list \<Rightarrow> nat list \<Rightarrow> nat list \<Rightarrow> bool list \<Rightarrow> (nat list \<times> bool list) option" where
  "flood adj stack cmp visited =
     (if stack = [] then Some (cmp, visited)
      else let u = last stack
           in if length adj \<le> u then None
              else case visit (adj ! u) visited (butlast stack) of
                     None \<Rightarrow> None
                   | Some (visited1, stack1) \<Rightarrow> flood adj stack1 (cmp @ [u]) visited1)"

fun components_from ::
  "nat list list \<Rightarrow> nat list \<Rightarrow> bool list \<Rightarrow> nat list list \<Rightarrow> nat list list option" where
  "components_from adj [] visited comps = Some comps"
| "components_from adj (i # rest) visited comps =
     (if length visited \<le> i then None
      else if \<not> visited ! i
      then (case flood adj [i] [] (visited[i := True]) of
              None \<Rightarrow> None
            | Some (cmp, visited1) \<Rightarrow> components_from adj rest visited1 (comps @ [cmp]))
      else components_from adj rest visited comps)"

definition connected_components :: "nat list list \<Rightarrow> nat list list option" where
  "connected_components adj =
     components_from adj [0..<length adj] (replicate (length adj) False) []"

definition comp_sorted :: "nat list list \<Rightarrow> nat list \<Rightarrow> nat list" where
  "comp_sorted adj cmp = sort_key (\<lambda>idx. - int (length (adj ! idx))) cmp"

definition to_remove_indices :: "nat list list \<Rightarrow> nat list list \<Rightarrow> nat set" where
  "to_remove_indices adj comps =
     fold (\<lambda>cmp rem.
             if MAX_NEARBY_OBSTACLES < length cmp
             then fold insert (take (length cmp - MAX_NEARBY_OBSTACLES) (comp_sorted adj cmp)) rem
             else rem)
          comps {}"

definition prune_clusters :: "obstacle list \<Rightarrow> obstacle list option" where
  "prune_clusters obs =
     (let adj = build_adj_list obs
      in case connected_components adj of
           None \<Rightarrow> None
         | Some comps \<Rightarrow>
             (let rem = to_remove_indices adj comps
              in Some (if rem \<noteq> {}
                       then map snd (filter (\<lambda>(idx, ob). idx \<notin> rem) (enumerate 0 obs))
                       else obs)))"

definition scatter :: "rng \<Rightarrow> nat \<Rightarrow> nat \<Rightarrow> obstacle list \<times> nat" where
  "scatter g r count =
     (let candidates = shuffle g (r + 2 * nat (x_cells * y_cells)) (grid_candidates g r);
          r1 = r + 2 * nat (x_cells * y_cells) + (length candidates - 1);
          max_tries = length candidates * 6;
          (obs, r2) = place_candidates g count max_tries candidates 0 r1 []
      in random_placement g count 0 r2 obs)"

definition generate_obstacles :: "rng \<Rightarrow> nat \<Rightarrow> nat \<Rightarrow> (obstacle list \<times> nat) option" where
  "generate_obstacles g r count =
     (let (obs, r') = scatter g r count
      in map_option (\<lambda>kept. (kept, r')) (prune_clusters obs))"

text \<open>
  What the theorems about the post-process speak of: the indices marked in \<open>visited\<close>,
  the edges an adjacency list holds, the pairs of obstacles whose centres are less than
  \<open>NEAR_RADIUS\<close> apart, the invariant of the two placement loops, the connected
  component of an obstacle and its degree in the graph of these pairs.
\<close>

definition marked :: "bool list \<Rightarrow> nat set" where
  "marked visited = {k. k < length visited \<and> visited ! k}"

definition links :: "nat list list \<Rightarrow> (nat \<times> nat) set" where
  "links adj = {(u, v). u < length adj \<and> v \<in> set (adj ! u)}"

definition near_pairs :: "obstacle list \<Rightarrow> (nat \<times> nat) set" where
  "near_pairs obs = {(a, b). a < length obs \<and> b < length obs \<and> a \<noteq> b
                        \<and> near (obs_rect (obs ! a)) (obs_rect (obs ! b))}"


definition cluster :: "obstacle list \<Rightarrow> nat \<Rightarrow> nat set" where
  "cluster obs a = {b. (a, b) \<in> (near_pairs obs)\<^sup>*}"

definition degree :: "obstacle list \<Rightarrow> nat \<Rightarrow> nat" where
  "degree obs a = card {b. (a, b) \<in> near_pairs obs}"

text \<open>
  A stream for a run: no jitter on the grid but for one candidate, a shuffle that leaves
  the candidates in their order, and the draws that place three small obstacles in a row.
\<close>

definition chain_stream :: rng where
  "chain_stream i =
     (if i = 5 then 0 else if i < 216 then 1 / 2 else if i < 323 then 999 / 1000
      else if i = 324 then 999 / 1000
      else if i = 325 \<or> i = 326 \<or> i = 330 \<or> i = 335 then 1 / 2
      else if i = 331 then 97 / 402 else 0)"

definition pillar :: obstacle where
  "pillar = \<lparr>obs_rect = Rect 100 100 40 140, obs_kind = ''tree''\<rparr>"

definition stump :: obstacle where
  "stump = \<lparr>obs_rect = Rect 100 248 40 40, obs_kind = ''tree''\<rparr>"

definition shrub :: obstacle where
  "shrub = \<lparr>obs_rect = Rect 100 333 40 40, obs_kind = ''tree''\<rparr>"
subsection \<open>Facts about the helpers\<close>

lemma hypot_nonneg: "0 \<le> hypot a b"
  by (simp add: hypot_def)

lemma hypot_le_iff: "0 \<le> r \<Longrightarrow> hypot a b \<le> r \<longleftrightarrow> a * a + b * b \<le> r * r"
  unfolding hypot_def
  by (metis abs_of_nonneg power2_eq_square real_sqrt_abs real_sqrt_le_iff)

lemma hypot_less_iff: "0 \<le> r \<Longrightarrow> hypot a b < r \<longleftrightarrow> a * a + b * b < r * r"
  unfolding hypot_def
  by (metis abs_of_nonneg power2_eq_square real_sqrt_abs real_sqrt_less_iff)

lemma hypot_mono: "\<bar>a\<bar> \<le> \<bar>c\<bar> \<Longrightarrow> \<bar>b\<bar> \<le> \<bar>d\<bar> \<Longrightarrow> hypot a b \<le> hypot c d"
proof -
  assume h: "\<bar>a\<bar> \<le> \<bar>c\<bar>" "\<bar>b\<bar> \<le> \<bar>d\<bar>"
  have "a\<^sup>2 \<le> c\<^sup>2" "b\<^sup>2 \<le> d\<^sup>2"
    using h by (simp_all add: abs_le_square_iff)
  then have "a * a + b * b \<le> c * c + d * d"
    by (simp add: power2_eq_square)
  then show ?thesis by (simp add: hypot_def)
qed

lemma hypot_3_4: "hypot 3 4 = 5"
  by (simp add: hypot_def real_sqrt_unique)

lemma clamp_in_solid:
  assumes "0 \<le> rect_w rc" "0 \<le> rect_h rc"
  shows "(clamp cx (real_of_int (left rc)) (real_of_int (right rc)),
          clamp cy (real_of_int (top rc)) (real_of_int (bottom rc))) \<in> solid_rect rc"
  using assms by (auto simp: solid_rect_def clamp_def left_def right_def top_def bottom_def)

lemma clamp_closest:
  assumes "(px, py) \<in> solid_rect rc"
  shows "distance cx cy (clamp cx (real_of_int (left rc)) (real_of_int (right rc)))
                        (clamp cy (real_of_int (top rc)) (real_of_int (bottom rc)))
         \<le> distance cx cy px py"
  unfolding distance_def
  by (rule hypot_mono) (use assms in \<open>auto simp: solid_rect_def clamp_def\<close>)

lemma min_distance_eq:
  assumes "0 \<le> rect_w rc" "0 \<le> rect_h rc"
  shows "min_distance cx cy rc =
         distance cx cy (clamp cx (real_of_int (left rc)) (real_of_int (right rc)))
                        (clamp cy (real_of_int (top rc)) (real_of_int (bottom rc)))"
  unfolding min_distance_def
proof (rule cInf_eq_minimum)
  show "distance cx cy (clamp cx (real_of_int (left rc)) (real_of_int (right rc)))
          (clamp cy (real_of_int (top rc)) (real_of_int (bottom rc)))
        \<in> (\<lambda>(px, py). distance cx cy px py) ` solid_rect rc"
    using clamp_in_solid [OF assms, of cx cy] by (force simp: image_iff)
next
  fix d assume "d \<in> (\<lambda>(px, py). distance cx cy px py) ` solid_rect rc"
  then obtain px py where "(px, py) \<in> solid_rect rc" "d = distance cx cy px py" by auto
  then show "distance cx cy (clamp cx (real_of_int (left rc)) (real_of_int (right rc)))
          (clamp cy (real_of_int (top rc)) (real_of_int (bottom rc))) \<le> d"
    using clamp_closest by simp
qed

section \<open>Circle against rectangle\<close>

text \<open>
  Claim C7. For a circle centre \<open>(cx, cy)\<close>, a radius \<open>r\<close> and a rectangle of
  non-negative width and height, \<open>circle_rect_collision\<close> is true exactly when the
  least Euclidean distance from the centre to the closed rectangle is at most \<open>r\<close>.
\<close>

theorem circle_rect_collision_iff_min_distance:
  assumes "0 \<le> rect_w rc" and "0 \<le> rect_h rc"
  shows "circle_rect_collision cx cy r rc \<longleftrightarrow> min_distance cx cy rc \<le> r"
  by (simp add: circle_rect_collision_def Let_def min_distance_eq [OF assms])

theorem circle_rect_collision_iff_min_distance_witness:
  "0 \<le> rect_w (Rect 0 0 10 10) \<and> 0 \<le> rect_h (Rect 0 0 10 10)
   \<and> circle_rect_collision 13 14 5 (Rect 0 0 10 10)
   \<and> min_distance 13 14 (Rect 0 0 10 10) \<le> 5
   \<and> \<not> circle_rect_collision 13 14 (49 / 10) (Rect 0 0 10 10)
   \<and> \<not> min_distance 13 14 (Rect 0 0 10 10) \<le> 49 / 10"
proof -
  have w: "0 \<le> rect_w (Rect 0 0 10 10)" and h: "0 \<le> rect_h (Rect 0 0 10 10)"
    by (simp_all add: Rect_def)
  have c: "circle_rect_collision 13 14 5 (Rect 0 0 10 10)"
    by (simp add: circle_rect_collision_def Let_def clamp_def distance_def hypot_le_iff
        left_def right_def top_def bottom_def Rect_def)
  have n: "\<not> circle_rect_collision 13 14 (49 / 10) (Rect 0 0 10 10)"
    by (simp add: circle_rect_collision_def Let_def clamp_def distance_def hypot_3_4
        left_def right_def top_def bottom_def Rect_def)
  show ?thesis
    using w h c n circle_rect_collision_iff_min_distance [OF w h, of 13 14 5]
      circle_rect_collision_iff_min_distance [OF w h, of 13 14 "49 / 10"]
    by simp
qed

section \<open>Properties of the spawner\<close>


lemma inside_obs_iff:
  "inside_obs obstacles x y \<longleftrightarrow>
   (\<exists>ob\<in>set obstacles. collidepoint (inflate (obs_rect ob) (OBSTACLE_SAFETY_MARGIN * 2) (OBSTACLE_SAFETY_MARGIN * 2)) x y)"
  by (induction obstacles) auto

lemma place_ok_step:
  "place_ok px py obstacles (tries + 1) (iters + 1) pl \<Longrightarrow> tries + 1 \<le> 500 \<Longrightarrow> place_ok px py obstacles tries iters pl"
  by (auto simp: place_ok_def max_def split: if_splits)

lemma spawn_search_returns:
  "\<exists>pl. spawn_search g i px py obstacles tries iters = Some pl \<and> place_ok px py obstacles tries iters pl"
proof (induction "501 - tries" arbitrary: tries i iters rule: less_induct)
  case less
  define X where "X = clamp (real_of_int (randint 0 (if WORLD_W div GRID_BIAS > 0 then WORLD_W div GRID_BIAS else 1) (g i) * GRID_BIAS)
              + uniform (- real_of_int GRID_BIAS / 2) (real_of_int GRID_BIAS / 2) (g (i + 2))) 0 (real_of_int WORLD_W)"
  define Y where "Y = clamp (real_of_int (randint 0 (if WORLD_H div GRID_BIAS > 0 then WORLD_H div GRID_BIAS else 1) (g (i + 1)) * GRID_BIAS)
              + uniform (- real_of_int GRID_BIAS / 2) (real_of_int GRID_BIAS / 2) (g (i + 3))) 0 (real_of_int WORLD_H)"
  have unfold: "spawn_search g i px py obstacles tries iters =
     (if distance X Y px py < 300 then
           (if tries + 1 > 300 then
              Some \<lparr>place_x = uniform 0 (real_of_int WORLD_W) (g (i + 4)),
                    place_y = uniform 0 (real_of_int WORLD_H) (g (i + 5)),
                    place_rng = i + 6, place_exit = Fallback_near_player,
                    place_tries = tries + 1, place_iters = iters + 1\<rparr>
            else spawn_search g (i + 4) px py obstacles (tries + 1) (iters + 1))
         else if inside_obs obstacles X Y then
           (if tries + 1 > 500 then
              Some \<lparr>place_x = uniform 0 (real_of_int WORLD_W) (g (i + 4)),
                    place_y = uniform 0 (real_of_int WORLD_H) (g (i + 5)),
                    place_rng = i + 6, place_exit = Fallback_inside_obstacle,
                    place_tries = tries + 1, place_iters = iters + 1\<rparr>
            else spawn_search g (i + 4) px py obstacles (tries + 1) (iters + 1))
         else
           Some \<lparr>place_x = X, place_y = Y, place_rng = i + 4, place_exit = All_good,
                 place_tries = tries, place_iters = iters + 1\<rparr>)"
    by (subst spawn_search.simps) (simp only: Let_def X_def Y_def)
  have IH: "\<exists>pl. spawn_search g (i + 4) px py obstacles (tries + 1) (iters + 1) = Some pl
        \<and> place_ok px py obstacles tries iters pl" if "tries + 1 \<le> 500"
    using less [of "tries + 1" "i + 4" "iters + 1"] that place_ok_step by fastforce
  consider (near_fb) "distance X Y px py < 300" "tries + 1 > 300"
    | (near_rec) "distance X Y px py < 300" "\<not> tries + 1 > 300"
    | (in_fb) "\<not> distance X Y px py < 300" "inside_obs obstacles X Y" "tries + 1 > 500"
    | (in_rec) "\<not> distance X Y px py < 300" "inside_obs obstacles X Y" "\<not> tries + 1 > 500"
    | (good) "\<not> distance X Y px py < 300" "\<not> inside_obs obstacles X Y"
    by blast
  then show ?case
  proof cases
    case near_fb
    then show ?thesis unfolding unfold by (simp add: place_ok_def max_def)
  next
    case near_rec
    then show ?thesis unfolding unfold using IH by simp
  next
    case in_fb
    then show ?thesis unfolding unfold by (simp add: place_ok_def max_def)
  next
    case in_rec
    then show ?thesis unfolding unfold using IH by simp
  next
    case good
    then show ?thesis unfolding unfold by (simp add: place_ok_def max_def)
  qed
qed


lemma spawn_search_start:
  "\<exists>pl. spawn_search g i px py obstacles 0 0 = Some pl \<and> place_ok px py obstacles 0 0 pl"
  by (rule spawn_search_returns)

lemma quarter_spawn:
  "spawn_mob (\<lambda>_. 1 / 4) 0 0 1200 900 [\<lparr>obs_rect = Rect 500 300 40 40, obs_kind = ''rock''\<rparr>]
     = Some \<lparr>sp_mob = \<lparr>mob_x = 550, mob_y = 350, mob_hp = 41 / 2, mob_speed = 51,
                        mob_type = ''melee'', mob_cooldown = 23 / 20, mob_id = 250000\<rparr>,
             sp_rng = 9,
             sp_place = \<lparr>place_x = 550, place_y = 350, place_rng = 4, place_exit = All_good,
                         place_tries = 0, place_iters = 1\<rparr>\<rparr>"
proof -
  have far: "\<not> distance 550 350 1200 900 < 300"
    by (simp add: distance_def hypot_less_iff)
  have s: "spawn_search (\<lambda>_. 1 / 4) 0 1200 900 [\<lparr>obs_rect = Rect 500 300 40 40, obs_kind = ''rock''\<rparr>] 0 0
     = Some \<lparr>place_x = 550, place_y = 350, place_rng = 4, place_exit = All_good,
                         place_tries = 0, place_iters = 1\<rparr>"
    by (subst spawn_search.simps)
       (simp add: Let_def config_defs randint_def uniform_def clamp_def far collidepoint_def inflate_def Rect_def)
  show ?thesis
    by (simp add: spawn_mob_def s Let_def choices_enemy_def ENEMY_TYPES_def uniform_def randint_def)
qed

lemma spawn_search_unfold:
  "spawn_search g i px py obstacles tries iters =
     (if too_near px py (candidate g i) then
           (if tries + 1 > 300 then
              Some \<lparr>place_x = uniform 0 (real_of_int WORLD_W) (g (i + 4)),
                    place_y = uniform 0 (real_of_int WORLD_H) (g (i + 5)),
                    place_rng = i + 6, place_exit = Fallback_near_player,
                    place_tries = tries + 1, place_iters = iters + 1\<rparr>
            else spawn_search g (i + 4) px py obstacles (tries + 1) (iters + 1))
         else if inside_obs obstacles (fst (candidate g i)) (snd (candidate g i)) then
           (if tries + 1 > 500 then
              Some \<lparr>place_x = uniform 0 (real_of_int WORLD_W) (g (i + 4)),
                    place_y = uniform 0 (real_of_int WORLD_H) (g (i + 5)),
                    place_rng = i + 6, place_exit = Fallback_inside_obstacle,
                    place_tries = tries + 1, place_iters = iters + 1\<rparr>
            else spawn_search g (i + 4) px py obstacles (tries + 1) (iters + 1))
         else
           Some \<lparr>place_x = fst (candidate g i), place_y = snd (candidate g i), place_rng = i + 4,
                 place_exit = All_good, place_tries = tries, place_iters = iters + 1\<rparr>)"
  by (subst spawn_search.simps) (simp only: Let_def candidate_def too_near_def fst_conv snd_conv)

lemma traced_now:
  "\<not> rejected px py obstacles (candidate g i) \<Longrightarrow>
   traced g i px py obstacles tries iters
     \<lparr>place_x = fst (candidate g i), place_y = snd (candidate g i), place_rng = i + 4,
      place_exit = All_good, place_tries = tries, place_iters = iters + 1\<rparr>"
  "too_near px py (candidate g i) \<Longrightarrow> 300 < tries + 1 \<Longrightarrow>
   traced g i px py obstacles tries iters
     \<lparr>place_x = uniform 0 (real_of_int WORLD_W) (g (i + 4)),
      place_y = uniform 0 (real_of_int WORLD_H) (g (i + 5)),
      place_rng = i + 6, place_exit = Fallback_near_player,
      place_tries = tries + 1, place_iters = iters + 1\<rparr>"
  "\<not> too_near px py (candidate g i) \<Longrightarrow> inside_obs obstacles (fst (candidate g i)) (snd (candidate g i)) \<Longrightarrow>
   500 < tries + 1 \<Longrightarrow>
   traced g i px py obstacles tries iters
     \<lparr>place_x = uniform 0 (real_of_int WORLD_W) (g (i + 4)),
      place_y = uniform 0 (real_of_int WORLD_H) (g (i + 5)),
      place_rng = i + 6, place_exit = Fallback_inside_obstacle,
      place_tries = tries + 1, place_iters = iters + 1\<rparr>"
  unfolding traced_def by (rule exI [of _ 0]; simp)+

lemma traced_later:
  assumes r: "rejected px py obstacles (candidate g i)"
    and t: "traced g (i + 4) px py obstacles (tries + 1) (iters + 1) pl"
  shows "traced g i px py obstacles tries iters pl"
proof -
  from t obtain n where n: "place_iters pl = iters + 1 + n + 1"
    "\<forall>k<n. rejected px py obstacles (candidate g (i + 4 + 4 * k))"
    and c: "case place_exit pl of
              All_good \<Rightarrow>
                \<not> rejected px py obstacles (candidate g (i + 4 + 4 * n))
                \<and> (place_x pl, place_y pl) = candidate g (i + 4 + 4 * n)
                \<and> place_tries pl = tries + 1 + n \<and> place_rng pl = i + 4 + 4 * n + 4
            | Fallback_near_player \<Rightarrow>
                too_near px py (candidate g (i + 4 + 4 * n)) \<and> 300 < tries + 1 + n + 1
                \<and> place_tries pl = tries + 1 + n + 1
                \<and> place_x pl = uniform 0 (real_of_int WORLD_W) (g (i + 4 + 4 * n + 4))
                \<and> place_y pl = uniform 0 (real_of_int WORLD_H) (g (i + 4 + 4 * n + 5))
                \<and> place_rng pl = i + 4 + 4 * n + 6
            | Fallback_inside_obstacle \<Rightarrow>
                \<not> too_near px py (candidate g (i + 4 + 4 * n))
                \<and> inside_obs obstacles (fst (candidate g (i + 4 + 4 * n))) (snd (candidate g (i + 4 + 4 * n)))
                \<and> 500 < tries + 1 + n + 1 \<and> place_tries pl = tries + 1 + n + 1
                \<and> place_x pl = uniform 0 (real_of_int WORLD_W) (g (i + 4 + 4 * n + 4))
                \<and> place_y pl = uniform 0 (real_of_int WORLD_H) (g (i + 4 + 4 * n + 5))
                \<and> place_rng pl = i + 4 + 4 * n + 6"
    unfolding traced_def by blast
  have idx: "i + 4 * Suc k = i + 4 + 4 * k" for k by simp
  have all: "\<forall>k<Suc n. rejected px py obstacles (candidate g (i + 4 * k))"
  proof (intro allI impI)
    fix k assume "k < Suc n"
    then show "rejected px py obstacles (candidate g (i + 4 * k))"
      using r n(2) by (cases k) (auto simp: add.assoc)
  qed
  show ?thesis
    unfolding traced_def
  proof (intro exI [of _ "Suc n"] conjI)
    show "place_iters pl = iters + Suc n + 1" using n(1) by simp
    show "\<forall>k<Suc n. rejected px py obstacles (candidate g (i + 4 * k))" by (rule all)
    show "case place_exit pl of
              All_good \<Rightarrow>
                \<not> rejected px py obstacles (candidate g (i + 4 * Suc n))
                \<and> (place_x pl, place_y pl) = candidate g (i + 4 * Suc n)
                \<and> place_tries pl = tries + Suc n \<and> place_rng pl = i + 4 * Suc n + 4
            | Fallback_near_player \<Rightarrow>
                too_near px py (candidate g (i + 4 * Suc n)) \<and> 300 < tries + Suc n + 1
                \<and> place_tries pl = tries + Suc n + 1
                \<and> place_x pl = uniform 0 (real_of_int WORLD_W) (g (i + 4 * Suc n + 4))
                \<and> place_y pl = uniform 0 (real_of_int WORLD_H) (g (i + 4 * Suc n + 5))
                \<and> place_rng pl = i + 4 * Suc n + 6
            | Fallback_inside_obstacle \<Rightarrow>
                \<not> too_near px py (candidate g (i + 4 * Suc n))
                \<and> inside_obs obstacles (fst (candidate g (i + 4 * Suc n))) (snd (candidate g (i + 4 * Suc n)))
                \<and> 500 < tries + Suc n + 1 \<and> place_tries pl = tries + Suc n + 1
                \<and> place_x pl = uniform 0 (real_of_int WORLD_W) (g (i + 4 * Suc n + 4))
                \<and> place_y pl = uniform 0 (real_of_int WORLD_H) (g (i + 4 * Suc n + 5))
                \<and> place_rng pl = i + 4 * Suc n + 6"
      using c unfolding idx by (cases "place_exit pl") (simp_all add: add.commute add.left_commute)
  qed
qed

lemma spawn_search_traced:
  "\<exists>pl. spawn_search g i px py obstacles tries iters = Some pl \<and> traced g i px py obstacles tries iters pl"
proof (induction "501 - tries" arbitrary: tries i iters rule: less_induct)
  case less
  have IH: "\<exists>pl. spawn_search g (i + 4) px py obstacles (tries + 1) (iters + 1) = Some pl
        \<and> traced g i px py obstacles tries iters pl"
    if "tries + 1 \<le> 500" "rejected px py obstacles (candidate g i)"
    using less [of "tries + 1" "i + 4" "iters + 1"] that traced_later by fastforce
  consider (near_fb) "too_near px py (candidate g i)" "tries + 1 > 300"
    | (near_rec) "too_near px py (candidate g i)" "\<not> tries + 1 > 300"
    | (in_fb) "\<not> too_near px py (candidate g i)"
        "inside_obs obstacles (fst (candidate g i)) (snd (candidate g i))" "tries + 1 > 500"
    | (in_rec) "\<not> too_near px py (candidate g i)"
        "inside_obs obstacles (fst (candidate g i)) (snd (candidate g i))" "\<not> tries + 1 > 500"
    | (good) "\<not> too_near px py (candidate g i)"
        "\<not> inside_obs obstacles (fst (candidate g i)) (snd (candidate g i))"
    by blast
  then show ?case
  proof cases
    case near_fb
    then show ?thesis unfolding spawn_search_unfold [of g i] using traced_now(2) by simp
  next
    case near_rec
    then show ?thesis unfolding spawn_search_unfold [of g i] using IH by (simp add: rejected_def)
  next
    case in_fb
    then show ?thesis unfolding spawn_search_unfold [of g i] using traced_now(3) by simp
  next
    case in_rec
    then show ?thesis unfolding spawn_search_unfold [of g i] using IH by (simp add: rejected_def)
  next
    case good
    then show ?thesis unfolding spawn_search_unfold [of g i] using traced_now(1) by (simp add: rejected_def)
  qed
qed

text \<open>
  Claim C4. \<open>spawn_mob\<close> returns a mob for every stream of random values, every minute,
  player position and obstacle list, after at most 501 iterations of its retry loop.
\<close>

theorem spawn_mob_total:
  "\<exists>sp. spawn_mob g i minute px py obstacles = Some sp
       \<and> 1 \<le> place_iters (sp_place sp) \<and> place_iters (sp_place sp) \<le> 501"
proof -
  obtain pl where pl: "spawn_search g i px py obstacles 0 0 = Some pl" "place_ok px py obstacles 0 0 pl"
    using spawn_search_start by blast
  then show ?thesis
    by (auto simp: spawn_mob_def Let_def place_ok_def)
qed

section \<open>Properties of a frame\<close>

lemma core_fields:
  assumes "core w' = core w"
  shows "w_obstacles w' = w_obstacles w" "w_elapsed w' = w_elapsed w" "w_spawn_acc w' = w_spawn_acc w"
    "w_state w' = w_state w" "w_cam_x w' = w_cam_x w" "w_cam_y w' = w_cam_y w"
    "w_running w' = w_running w"
    "pl_x (w_player w') = pl_x (w_player w)" "pl_y (w_player w') = pl_y (w_player w)"
    "pl_level (w_player w') = pl_level (w_player w)" "pl_speed (w_player w') = pl_speed (w_player w)"
    "pl_attack_cooldown (w_player w') = pl_attack_cooldown (w_player w)"
    "pl_champion (w_player w') = pl_champion (w_player w)"
    "pl_proj_speed (w_player w') = pl_proj_speed (w_player w)"
    "pl_proj_dmg (w_player w') = pl_proj_dmg (w_player w)"
    "pl_attack_range (w_player w') = pl_attack_range (w_player w)"
    "pl_attack_type (w_player w') = pl_attack_type (w_player w)"
proof -
  have a: "f (core w') = f (core w)" for f :: "world \<Rightarrow> 'a" using assms by simp
  show "w_obstacles w' = w_obstacles w" using a [of w_obstacles] by (simp add: core_def)
  show "w_elapsed w' = w_elapsed w" using a [of w_elapsed] by (simp add: core_def)
  show "w_spawn_acc w' = w_spawn_acc w" using a [of w_spawn_acc] by (simp add: core_def)
  show "w_state w' = w_state w" using a [of w_state] by (simp add: core_def)
  show "w_cam_x w' = w_cam_x w" using a [of w_cam_x] by (simp add: core_def)
  show "w_cam_y w' = w_cam_y w" using a [of w_cam_y] by (simp add: core_def)
  show "w_running w' = w_running w" using a [of w_running] by (simp add: core_def)
  show "pl_x (w_player w') = pl_x (w_player w)" using a [of "\<lambda>w. pl_x (w_player w)"] by (simp add: core_def)
  show "pl_y (w_player w') = pl_y (w_player w)" using a [of "\<lambda>w. pl_y (w_player w)"] by (simp add: core_def)
  show "pl_level (w_player w') = pl_level (w_player w)" using a [of "\<lambda>w. pl_level (w_player w)"] by (simp add: core_def)
  show "pl_speed (w_player w') = pl_speed (w_player w)" using a [of "\<lambda>w. pl_speed (w_player w)"] by (simp add: core_def)
  show "pl_attack_cooldown (w_player w') = pl_attack_cooldown (w_player w)" using a [of "\<lambda>w. pl_attack_cooldown (w_player w)"] by (simp add: core_def)
  show "pl_champion (w_player w') = pl_champion (w_player w)" using a [of "\<lambda>w. pl_champion (w_player w)"] by (simp add: core_def)
  show "pl_proj_speed (w_player w') = pl_proj_speed (w_player w)" using a [of "\<lambda>w. pl_proj_speed (w_player w)"] by (simp add: core_def)
  show "pl_proj_dmg (w_player w') = pl_proj_dmg (w_player w)" using a [of "\<lambda>w. pl_proj_dmg (w_player w)"] by (simp add: core_def)
  show "pl_attack_range (w_player w') = pl_attack_range (w_player w)" using a [of "\<lambda>w. pl_attack_range (w_player w)"] by (simp add: core_def)
  show "pl_attack_type (w_player w') = pl_attack_type (w_player w)" using a [of "\<lambda>w. pl_attack_type (w_player w)"] by (simp add: core_def)
qed

lemma core_hurt_player [simp]: "core (hurt_player d w) = core w"
  by (simp add: core_def hurt_player_def)

lemma core_upd [simp]:
  "core (w\<lparr>w_mobs := ms\<rparr>) = core w"
  "core (w\<lparr>w_projectile_list := ps\<rparr>) = core w"
  "core (w\<lparr>w_lava_pools := ls\<rparr>) = core w"
  "core (w\<lparr>w_rng := r\<rparr>) = core w"
  "core (w\<lparr>w_player := (w_player w)\<lparr>pl_xp := xp\<rparr>\<rparr>) = core w"
  by (simp_all add: core_def)

lemma update_mob_core:
  assumes "update_mob g minute dt m w = (m', w')"
  shows "core w' = core w"
  using assms
  by (auto simp: update_mob_def update_melee_def update_shooter_def update_lava_mob_def
      Let_def split: if_splits)

lemma update_mobs_core: "core (update_mobs g minute dt kept ms w) = core w"
proof (induction ms arbitrary: kept w)
  case Nil
  show ?case by simp
next
  case (Cons m ms)
  obtain m' w' where u: "update_mob g minute dt m w = (m', w')" by fastforce
  show ?case
    using update_mob_core [OF u] by (simp add: u Cons.IH)
qed

lemma update_projectiles_core: "core (update_projectiles dt kept ps w) = core w"
  by (induction ps arbitrary: kept w) (simp_all add: Let_def split: option.splits)

lemma update_lava_pools_core: "core (update_lava_pools dt kept ls w) = core w"
  by (induction ls arbitrary: kept w) (simp_all add: Let_def)

lemma player_attack_core: "core (player_attack dt w) = core w"
  by (simp add: player_attack_def Let_def core_def split: list.splits)

lemma spawn_mob_some: "\<exists>sp. spawn_mob g i minute px py obstacles = Some sp"
proof -
  obtain pl where "spawn_search g i px py obstacles 0 0 = Some pl"
    using spawn_search_start by blast
  then show ?thesis by (simp add: spawn_mob_def Let_def)
qed

lemma spawn_interval_pos: "4 / 10 \<le> spawn_interval minute"
  by (simp add: spawn_interval_def)

lemma spawn_interval_antimono: "m \<le> n \<Longrightarrow> spawn_interval n \<le> spawn_interval m"
  by (auto simp: spawn_interval_def max_def)

lemma spawn_due_idle: "w_spawn_acc w < spawn_interval minute \<Longrightarrow> spawn_due g minute w = Some w"
  by (subst spawn_due.simps) simp

lemma spawn_due_bounded:
  "w_spawn_acc w < real k * spawn_interval minute \<Longrightarrow>
   \<exists>a ms r. spawn_due g minute w = Some (w\<lparr>w_spawn_acc := a, w_mobs := w_mobs w @ ms, w_rng := r\<rparr>)"
proof (induction k arbitrary: w)
  case 0
  then have "w_spawn_acc w < spawn_interval minute"
    using spawn_interval_pos [of minute] by simp
  then have "spawn_due g minute w = Some (w\<lparr>w_spawn_acc := w_spawn_acc w, w_mobs := w_mobs w @ [], w_rng := w_rng w\<rparr>)"
    by (simp add: spawn_due_idle)
  then show ?case by blast
next
  case (Suc k)
  show ?case
  proof (cases "w_spawn_acc w \<ge> spawn_interval minute")
    case False
    then have "spawn_due g minute w = Some (w\<lparr>w_spawn_acc := w_spawn_acc w, w_mobs := w_mobs w @ [], w_rng := w_rng w\<rparr>)"
      by (simp add: spawn_due_idle)
    then show ?thesis by blast
  next
    case True
    obtain sp where sp: "spawn_mob g (w_rng w) minute (pl_x (w_player w)) (pl_y (w_player w)) (w_obstacles w) = Some sp"
      using spawn_mob_some by blast
    let ?w1 = "w\<lparr>w_spawn_acc := w_spawn_acc w - spawn_interval minute,
                     w_mobs := w_mobs w @ [sp_mob sp], w_rng := sp_rng sp\<rparr>"
    have "w_spawn_acc ?w1 < real k * spawn_interval minute"
      using Suc.prems by (simp add: algebra_simps)
    from Suc.IH [OF this] obtain a ms r where
      r: "spawn_due g minute ?w1 = Some (?w1\<lparr>w_spawn_acc := a, w_mobs := w_mobs ?w1 @ ms, w_rng := r\<rparr>)"
      by blast
    have "spawn_due g minute w = spawn_due g minute ?w1"
      by (subst spawn_due.simps) (simp add: True sp)
    then have "spawn_due g minute w = Some (w\<lparr>w_spawn_acc := a, w_mobs := w_mobs w @ (sp_mob sp # ms), w_rng := r\<rparr>)"
      using r by simp
    then show ?thesis by blast
  qed
qed

lemma spawn_due_returns:
  "\<exists>a ms r. spawn_due g minute w = Some (w\<lparr>w_spawn_acc := a, w_mobs := w_mobs w @ ms, w_rng := r\<rparr>)"
proof -
  have p: "0 < spawn_interval minute" using spawn_interval_pos [of minute] by simp
  obtain k :: nat where "w_spawn_acc w / spawn_interval minute < real k"
    using reals_Archimedean2 by blast
  then have "w_spawn_acc w < real k * spawn_interval minute"
    using p by (simp add: pos_divide_less_eq)
  then show ?thesis by (rule spawn_due_bounded)
qed

lemma handle_event_keeps:
  "w_elapsed (handle_event ev w) = w_elapsed w"
  "w_mobs (handle_event ev w) = w_mobs w"
  "w_projectile_list (handle_event ev w) = w_projectile_list w"
  "w_lava_pools (handle_event ev w) = w_lava_pools w"
  "w_obstacles (handle_event ev w) = w_obstacles w"
  "w_spawn_acc (handle_event ev w) = w_spawn_acc w"
  "w_rng (handle_event ev w) = w_rng w"
  "pl_level (w_player (handle_event ev w)) = pl_level (w_player w)"
  "pl_xp (w_player (handle_event ev w)) = pl_xp (w_player w)"
  "pl_x (w_player (handle_event ev w)) = pl_x (w_player w)"
  "pl_y (w_player (handle_event ev w)) = pl_y (w_player w)"
  by (cases ev; simp add: Let_def)+

lemma handle_events_keeps:
  "w_elapsed (handle_events evs w) = w_elapsed w"
  "w_mobs (handle_events evs w) = w_mobs w"
  "w_projectile_list (handle_events evs w) = w_projectile_list w"
  "w_lava_pools (handle_events evs w) = w_lava_pools w"
  "w_obstacles (handle_events evs w) = w_obstacles w"
  "w_spawn_acc (handle_events evs w) = w_spawn_acc w"
  "w_rng (handle_events evs w) = w_rng w"
  "pl_level (w_player (handle_events evs w)) = pl_level (w_player w)"
  "pl_xp (w_player (handle_events evs w)) = pl_xp (w_player w)"
  "pl_x (w_player (handle_events evs w)) = pl_x (w_player w)"
  "pl_y (w_player (handle_events evs w)) = pl_y (w_player w)"
  by (induction evs arbitrary: w; simp add: handle_event_keeps)+

lemma handle_event_settled:
  "w_state w \<noteq> ''levelup'' \<Longrightarrow> w_state (handle_event ev w) = w_state w \<and> w_player (handle_event ev w) = w_player w"
  by (cases ev) (simp_all add: Let_def)

lemma handle_events_settled:
  "w_state w \<noteq> ''levelup'' \<Longrightarrow> w_state (handle_events evs w) = w_state w \<and> w_player (handle_events evs w) = w_player w"
proof (induction evs arbitrary: w)
  case Nil
  show ?case by simp
next
  case (Cons ev evs)
  note s = handle_event_settled [OF Cons.prems, of ev]
  have "w_state (handle_event ev w) \<noteq> ''levelup''"
    using s Cons.prems by simp
  from Cons.IH [OF this] show ?case
    using s by simp
qed

lemma handle_events_elapsed_upd:
  "handle_events evs (w\<lparr>w_elapsed := e\<rparr>) = (handle_events evs w)\<lparr>w_elapsed := e\<rparr>"
proof (induction evs arbitrary: w)
  case Nil
  show ?case by simp
next
  case (Cons ev evs)
  have "handle_event ev (w\<lparr>w_elapsed := e\<rparr>) = (handle_event ev w)\<lparr>w_elapsed := e\<rparr>"
    by (cases ev) (simp_all add: Let_def)
  then show ?case by (simp add: Cons.IH)
qed

lemma simulate_fought: "simulate g minute dt w = win_death_check (level_up_check (fought g minute dt w))"
  by (simp add: simulate_def fought_def Let_def)

lemma fought_core: "core (fought g minute dt w) = core w"
  by (simp add: fought_def Let_def player_attack_core update_lava_pools_core
      update_projectiles_core update_mobs_core)

lemma core_before_fight [simp]:
  "core (w\<lparr>w_spawn_acc := a, w_mobs := ms, w_rng := r\<rparr>) = core (w\<lparr>w_spawn_acc := a\<rparr>)"
  by (simp add: core_def)

lemma move_player_keeps:
  "w_elapsed (move_player keys dt w) = w_elapsed w"
  "w_state (move_player keys dt w) = w_state w"
  "w_spawn_acc (move_player keys dt w) = w_spawn_acc w"
  "w_mobs (move_player keys dt w) = w_mobs w"
  "w_projectile_list (move_player keys dt w) = w_projectile_list w"
  "w_lava_pools (move_player keys dt w) = w_lava_pools w"
  "w_obstacles (move_player keys dt w) = w_obstacles w"
  "w_rng (move_player keys dt w) = w_rng w"
  "w_running (move_player keys dt w) = w_running w"
  "pl_hp (w_player (move_player keys dt w)) = pl_hp (w_player w)"
  "pl_level (w_player (move_player keys dt w)) = pl_level (w_player w)"
  "pl_xp (w_player (move_player keys dt w)) = pl_xp (w_player w)"
  by (simp_all add: move_player_def Let_def)

lemma entered_keeps:
  "w_elapsed (entered keys dt w) = w_elapsed w"
  "w_state (entered keys dt w) = w_state w"
  "w_spawn_acc (entered keys dt w) = w_spawn_acc w + dt"
  "w_mobs (entered keys dt w) = w_mobs w"
  "w_projectile_list (entered keys dt w) = w_projectile_list w"
  "w_lava_pools (entered keys dt w) = w_lava_pools w"
  "w_obstacles (entered keys dt w) = w_obstacles w"
  "w_rng (entered keys dt w) = w_rng w"
  "w_running (entered keys dt w) = w_running w"
  "pl_hp (w_player (entered keys dt w)) = pl_hp (w_player w)"
  "pl_level (w_player (entered keys dt w)) = pl_level (w_player w)"
  "pl_xp (w_player (entered keys dt w)) = pl_xp (w_player w)"
  "pl_x (w_player (entered keys dt w)) = pl_x (w_player (move_player keys dt w))"
  "pl_y (w_player (entered keys dt w)) = pl_y (w_player (move_player keys dt w))"
  by (simp_all add: entered_def update_camera_def move_player_keeps)

lemma playing_frame_eq:
  "\<exists>a ms r. playing_frame g minute dt keys w =
     Some (simulate g minute dt ((entered keys dt w)\<lparr>w_spawn_acc := a, w_mobs := w_mobs w @ ms, w_rng := r\<rparr>))"
proof -
  obtain a ms r where
    "spawn_due g minute (entered keys dt w) =
       Some ((entered keys dt w)\<lparr>w_spawn_acc := a, w_mobs := w_mobs (entered keys dt w) @ ms, w_rng := r\<rparr>)"
    using spawn_due_returns by blast
  then have "playing_frame g minute dt keys w =
     Some (simulate g minute dt ((entered keys dt w)\<lparr>w_spawn_acc := a, w_mobs := w_mobs w @ ms, w_rng := r\<rparr>))"
    by (simp add: playing_frame_def entered_def Let_def update_camera_def move_player_keeps)
  then show ?thesis by blast
qed

lemma playing_frame_idle:
  assumes "w_spawn_acc w + dt < spawn_interval minute"
  shows "playing_frame g minute dt keys w = Some (simulate g minute dt (entered keys dt w))"
proof -
  have "spawn_due g minute (entered keys dt w) = Some (entered keys dt w)"
    using assms by (simp add: spawn_due_idle entered_keeps)
  then show ?thesis
    by (simp add: playing_frame_def entered_def Let_def update_camera_def move_player_keeps)
qed

lemma draw_keeps:
  "w_elapsed (draw w) = w_elapsed w" "w_state (draw w) = w_state w" "w_player (draw w) = w_player w"
  "w_mobs (draw w) = w_mobs w" "w_projectile_list (draw w) = w_projectile_list w"
  "w_lava_pools (draw w) = w_lava_pools w" "w_spawn_acc (draw w) = w_spawn_acc w"
  "w_running (draw w) = w_running w" "w_obstacles (draw w) = w_obstacles w" "w_rng (draw w) = w_rng w"
  by (simp_all add: draw_def update_camera_def)

lemma checks_keep:
  "w_elapsed (win_death_check w) = w_elapsed w" "w_player (win_death_check w) = w_player w"
  "w_mobs (win_death_check w) = w_mobs w" "w_projectile_list (win_death_check w) = w_projectile_list w"
  "w_lava_pools (win_death_check w) = w_lava_pools w" "w_spawn_acc (win_death_check w) = w_spawn_acc w"
  "w_running (win_death_check w) = w_running w" "w_obstacles (win_death_check w) = w_obstacles w"
  "w_rng (win_death_check w) = w_rng w"
  "w_elapsed (level_up_check w) = w_elapsed w"
  "w_mobs (level_up_check w) = w_mobs w" "w_projectile_list (level_up_check w) = w_projectile_list w"
  "w_lava_pools (level_up_check w) = w_lava_pools w" "w_spawn_acc (level_up_check w) = w_spawn_acc w"
  "w_running (level_up_check w) = w_running w" "w_obstacles (level_up_check w) = w_obstacles w"
  "w_rng (level_up_check w) = w_rng w"
  "pl_hp (w_player (level_up_check w)) = pl_hp (w_player w)"
  "pl_xp (w_player (level_up_check w)) = pl_xp (w_player w)"
  "pl_x (w_player (level_up_check w)) = pl_x (w_player w)"
  "pl_y (w_player (level_up_check w)) = pl_y (w_player w)"
  by (simp_all add: win_death_check_def level_up_check_def Let_def)

lemma ticked_alt: "ticked inp w = (handle_events (in_events inp) w)\<lparr>w_elapsed := w_elapsed w + real (in_tick_ms inp) / 1000\<rparr>"
  by (simp add: ticked_def handle_events_elapsed_upd)

lemma ticked_keeps:
  "w_elapsed (ticked inp w) = w_elapsed w + real (in_tick_ms inp) / 1000"
  "w_state (ticked inp w) = w_state (handle_events (in_events inp) w)"
  "w_player (ticked inp w) = w_player (handle_events (in_events inp) w)"
  "w_mobs (ticked inp w) = w_mobs w"
  "w_projectile_list (ticked inp w) = w_projectile_list w"
  "w_lava_pools (ticked inp w) = w_lava_pools w"
  "w_obstacles (ticked inp w) = w_obstacles w"
  "w_spawn_acc (ticked inp w) = w_spawn_acc w"
  "w_rng (ticked inp w) = w_rng w"
  by (simp_all add: ticked_alt handle_events_keeps)

lemma frame_eq:
  "frame g inp w =
     (if w_state (ticked inp w) = ''playing''
      then map_option draw (playing_frame g \<lfloor>w_elapsed (ticked inp w) / 60\<rfloor> (real (in_tick_ms inp) / 1000) (in_keys inp) (ticked inp w))
      else Some (draw (ticked inp w)))"
  by (simp add: frame_def Let_def ticked_def handle_events_keeps map_option_case split: option.splits)

lemma frame_playing:
  assumes "w_state (handle_events (in_events inp) w) = ''playing''"
  shows "\<exists>v. frame g inp w = Some (draw (win_death_check (level_up_check v)))
           \<and> w_elapsed v = w_elapsed w + real (in_tick_ms inp) / 1000
           \<and> w_state v = ''playing''
           \<and> w_obstacles v = w_obstacles w
           \<and> pl_level (w_player v) = pl_level (w_player w)
           \<and> pl_x (w_player v) = pl_x (w_player (move_player (in_keys inp) (real (in_tick_ms inp) / 1000) (ticked inp w)))
           \<and> pl_y (w_player v) = pl_y (w_player (move_player (in_keys inp) (real (in_tick_ms inp) / 1000) (ticked inp w)))"
proof -
  define dt where "dt = real (in_tick_ms inp) / 1000"
  define t where "t = ticked inp w"
  define minute where "minute = \<lfloor>w_elapsed t / 60\<rfloor>"
  define e where "e = entered (in_keys inp) dt t"
  obtain a ms r where
    p: "playing_frame g minute dt (in_keys inp) t =
        Some (simulate g minute dt (e\<lparr>w_spawn_acc := a, w_mobs := w_mobs t @ ms, w_rng := r\<rparr>))"
    unfolding e_def using playing_frame_eq by blast
  define v where "v = fought g minute dt (e\<lparr>w_spawn_acc := a, w_mobs := w_mobs t @ ms, w_rng := r\<rparr>)"
  have st: "w_state t = ''playing''" using assms by (simp add: t_def ticked_keeps)
  have f: "frame g inp w = Some (draw (win_death_check (level_up_check v)))"
    using st p by (simp add: frame_eq simulate_fought v_def t_def [symmetric] dt_def [symmetric] minute_def [symmetric])
  have c: "core v = core (e\<lparr>w_spawn_acc := a\<rparr>)"
    by (simp add: fought_core v_def)
  note cf = core_fields [OF c]
  have "w_elapsed v = w_elapsed w + dt" "w_state v = ''playing''" "w_obstacles v = w_obstacles w"
    "pl_level (w_player v) = pl_level (w_player w)"
    "pl_x (w_player v) = pl_x (w_player (move_player (in_keys inp) dt t))"
    "pl_y (w_player v) = pl_y (w_player (move_player (in_keys inp) dt t))"
    using st by (simp_all add: cf e_def entered_keeps) (simp_all add: t_def ticked_keeps handle_events_keeps dt_def)
  with f show ?thesis unfolding dt_def t_def by blast
qed

lemma frame_other:
  assumes "w_state (handle_events (in_events inp) w) \<noteq> ''playing''"
  shows "frame g inp w = Some (draw (ticked inp w))"
  using assms by (simp add: frame_eq ticked_keeps)

text \<open>
  Claim C10. Every iteration of the main loop returns, and adds the frame's \<open>dt\<close> to the
  elapsed time, whatever the state is.
\<close>

theorem elapsed_accrues_every_frame:
  "\<exists>w'. frame g inp w = Some w' \<and> w_elapsed w' = w_elapsed w + real (in_tick_ms inp) / 1000"
proof (cases "w_state (handle_events (in_events inp) w) = ''playing''")
  case True
  from frame_playing [OF True, of g] obtain v where
    "frame g inp w = Some (draw (win_death_check (level_up_check v)))"
    "w_elapsed v = w_elapsed w + real (in_tick_ms inp) / 1000" by blast
  then show ?thesis by (simp add: draw_keeps checks_keep)
next
  case False
  then show ?thesis by (simp add: frame_other draw_keeps ticked_keeps)
qed

text \<open>
  Claim C5, as amended. A frame that runs the playing block ends in state \<open>dead\<close> when
  the player's hit points are at most 0 at its end, and in state \<open>win\<close> when they are
  positive and the elapsed time has reached the level duration. From \<open>win\<close> or \<open>dead\<close> a
  frame changes neither the state nor the player, the mobs, the projectiles or the lava pools.
\<close>

theorem win_and_death_transitions:
  "\<exists>w'. frame g inp w = Some w'
     \<and> (w_state (handle_events (in_events inp) w) = ''playing'' \<longrightarrow>
          (pl_hp (w_player w') \<le> 0 \<longrightarrow> w_state w' = ''dead'')
        \<and> (0 < pl_hp (w_player w') \<and> real_of_int LEVEL_DURATION_SECONDS \<le> w_elapsed w' \<longrightarrow> w_state w' = ''win''))
     \<and> (w_state w = ''win'' \<or> w_state w = ''dead'' \<longrightarrow>
          w_state w' = w_state w \<and> w_player w' = w_player w \<and> w_mobs w' = w_mobs w
        \<and> w_projectile_list w' = w_projectile_list w \<and> w_lava_pools w' = w_lava_pools w)"
proof (cases "w_state (handle_events (in_events inp) w) = ''playing''")
  case True
  from frame_playing [OF True, of g] obtain v where
    v: "frame g inp w = Some (draw (win_death_check (level_up_check v)))" by blast
  have "w_state w \<noteq> ''win''" "w_state w \<noteq> ''dead''"
    using True handle_events_settled [of w "in_events inp"] by auto
  then show ?thesis
    by (simp add: v draw_keeps checks_keep) (simp add: win_death_check_def level_up_check_def Let_def)
next
  case False
  have "w_state w = ''win'' \<or> w_state w = ''dead'' \<Longrightarrow>
     w_state (handle_events (in_events inp) w) = w_state w \<and> w_player (handle_events (in_events inp) w) = w_player w"
    using handle_events_settled [of w "in_events inp"] by auto
  then show ?thesis
    using False by (auto simp add: frame_other draw_keeps ticked_keeps)
qed

lemma start_world_chosen: "start_world = choose_champion ''mage'' (prepare_world sample_obstacles 0)"
  by (simp add: start_world_def mage_def choose_champion_def prepare_world_def Player_def Let_def config_defs)

lemma hypot_0 [simp]: "hypot a 0 = \<bar>a\<bar>" "hypot 0 b = \<bar>b\<bar>"
  by (simp_all add: hypot_def)

lemma move_player_no_keys [simp]: "move_player no_keys dt w = w"
  by (simp add: move_player_def no_keys_def)

lemma frame_idle_eval:
  assumes "ticked inp w = t" and "w_state t = ''playing''"
    and "\<lfloor>w_elapsed t / 60\<rfloor> = minute" and "real (in_tick_ms inp) / 1000 = dt"
    and "w_spawn_acc t + dt < spawn_interval minute"
    and "fought g minute dt (entered (in_keys inp) dt t) = v"
  shows "frame g inp w = Some (draw (win_death_check (level_up_check v)))"
  using assms by (simp add: frame_eq playing_frame_idle simulate_fought)

lemma dying_frame:
  "frame half idle_input dying_world =
     Some (dying_world\<lparr>w_player := mage\<lparr>pl_hp := - 23 / 50, pl_attack_timer := - 1 / 50\<rparr>,
        w_lava_pools := [\<lparr>lava_x = 1200, lava_y = 900, lava_radius = 60, lava_duration = 249 / 50, lava_tick = 51 / 50\<rparr>],
        w_elapsed := 60001 / 100, w_spawn_acc := 1 / 50, w_cam_x := 800, w_cam_y := 600, w_state := ''dead''\<rparr>)"
proof -
  have t: "ticked idle_input dying_world = dying_world\<lparr>w_elapsed := 60001 / 100\<rparr>"
    by (simp add: ticked_def idle_input_def dying_world_def)
  have f: "fought half 10 (1 / 50) (entered (in_keys idle_input) (1 / 50) (dying_world\<lparr>w_elapsed := 60001 / 100\<rparr>))
     = dying_world\<lparr>w_player := mage\<lparr>pl_hp := - 23 / 50, pl_attack_timer := - 1 / 50\<rparr>,
        w_lava_pools := [\<lparr>lava_x = 1200, lava_y = 900, lava_radius = 60, lava_duration = 249 / 50, lava_tick = 51 / 50\<rparr>],
        w_elapsed := 60001 / 100, w_spawn_acc := 1 / 50, w_cam_x := 800, w_cam_y := 600\<rparr>"
    by (simp add: fought_def entered_def update_camera_def dying_world_def start_world_def mage_def
        player_attack_def hurt_player_def distance_def clamp_def config_defs idle_input_def)
  have "frame half idle_input dying_world = Some (draw (win_death_check (level_up_check
     (dying_world\<lparr>w_player := mage\<lparr>pl_hp := - 23 / 50, pl_attack_timer := - 1 / 50\<rparr>,
        w_lava_pools := [\<lparr>lava_x = 1200, lava_y = 900, lava_radius = 60, lava_duration = 249 / 50, lava_tick = 51 / 50\<rparr>],
        w_elapsed := 60001 / 100, w_spawn_acc := 1 / 50, w_cam_x := 800, w_cam_y := 600\<rparr>))))"
  proof (rule frame_idle_eval [OF t _ _ _ _ f])
    show "w_state (dying_world\<lparr>w_elapsed := 60001 / 100\<rparr>) = ''playing''"
      by (simp add: dying_world_def start_world_def)
    show "\<lfloor>w_elapsed (dying_world\<lparr>w_elapsed := 60001 / 100\<rparr>) / 60\<rfloor> = 10" by simp
    show "real (in_tick_ms idle_input) / 1000 = 1 / 50" by (simp add: idle_input_def)
    show "w_spawn_acc (dying_world\<lparr>w_elapsed := 60001 / 100\<rparr>) + 1 / 50 < spawn_interval 10"
      by (simp add: dying_world_def start_world_def spawn_interval_def BASE_SPAWN_def)
  qed
  then show ?thesis
    by (simp add: dying_world_def start_world_def mage_def level_up_check_def win_death_check_def draw_def
         update_camera_def config_defs clamp_def)
qed

lemma dead_frame:
  "frame half idle_input dead_world = Some (dead_world\<lparr>w_elapsed := 60003 / 100\<rparr>)"
proof -
  have s: "w_state (handle_events (in_events idle_input) dead_world) \<noteq> ''playing''"
    by (simp add: idle_input_def dead_world_def)
  show ?thesis
    unfolding frame_other [OF s]
    by (simp add: ticked_def idle_input_def draw_def update_camera_def)
       (simp add: dead_world_def dying_world_def start_world_def mage_def clamp_def config_defs)
qed

theorem win_and_death_transitions_witness:
  "frame half idle_input dying_world = Some dead_world
   \<and> w_state (handle_events (in_events idle_input) dying_world) = ''playing''
   \<and> pl_hp (w_player dead_world) \<le> 0 \<and> w_state dead_world = ''dead''
   \<and> frame half idle_input dead_world = Some (dead_world\<lparr>w_elapsed := 60003 / 100\<rparr>)
   \<and> w_state (dead_world\<lparr>w_elapsed := 60003 / 100\<rparr>) = w_state dead_world
   \<and> w_player (dead_world\<lparr>w_elapsed := 60003 / 100\<rparr>) = w_player dead_world"
proof -
  have a: "w_state (handle_events (in_events idle_input) dying_world) = ''playing''"
    by (simp add: idle_input_def dying_world_def start_world_def)
  have b: "pl_hp (w_player dead_world) \<le> 0" by (simp add: dead_world_def)
  have c: "w_state dead_world = ''dead''"
    using win_and_death_transitions [of half idle_input dying_world] a b dying_frame
    by (simp add: dead_world_def)
  show ?thesis
    using a b c dying_frame dead_frame win_and_death_transitions [of half idle_input dead_world]
    by (simp add: dead_world_def)
qed

theorem elapsed_accrues_every_frame_witness:
  "\<exists>w'. frame half idle_input dead_world = Some w' \<and> w_elapsed w' = 60003 / 100"
  using elapsed_accrues_every_frame [of half idle_input dead_world]
  by (simp add: dead_world_def idle_input_def)

lemmas rect_defs = circle_rect_collision_def left_def right_def top_def bottom_def Rect_def clamp_def

lemma update_slain:
  "update_mob half minute (1 / 50) slain (w\<lparr>w_player := mage\<lparr>pl_xp := 4\<rparr>, w_obstacles := sample_obstacles\<rparr>)
     = (slain\<lparr>mob_cooldown := 49 / 50, mob_x := 1499\<rparr>, w\<lparr>w_player := mage\<lparr>pl_xp := 4\<rparr>, w_obstacles := sample_obstacles\<rparr>)"
  by (simp add: update_mob_def update_melee_def slain_def mage_def Let_def toward_def sample_obstacles_def
      rect_defs distance_def hypot_le_iff config_defs)

lemma fought_levelling:
  "fought half minute (1 / 50) (entered (in_keys idle_input) (1 / 50) ((levelling_at e)\<lparr>w_elapsed := e'\<rparr>))
     = start_world\<lparr>w_player := mage\<lparr>pl_xp := 5, pl_attack_timer := - 1 / 50\<rparr>,
         w_elapsed := e', w_spawn_acc := 1 / 50, w_cam_x := 800, w_cam_y := 600\<rparr>"
proof -
  have e: "entered (in_keys idle_input) (1 / 50) ((levelling_at e)\<lparr>w_elapsed := e'\<rparr>)
     = start_world\<lparr>w_mobs := [slain], w_elapsed := e', w_spawn_acc := 1 / 50, w_cam_x := 800, w_cam_y := 600,
          w_player := mage\<lparr>pl_xp := 4\<rparr>, w_obstacles := sample_obstacles\<rparr>"
    by (simp add: entered_def idle_input_def levelling_at_def update_camera_def start_world_def mage_def
        clamp_def config_defs)
  show ?thesis
    unfolding e fought_def
    by (simp add: Let_def update_slain)
       (simp add: start_world_def mage_def slain_def player_attack_def)
qed

lemma levelling_frame:
  shows "frame half idle_input (levelling_at e) =
    Some (levelled_at (e + 1 / 50) (if real_of_int LEVEL_DURATION_SECONDS \<le> e + 1 / 50 then ''win'' else ''levelup''))"
proof -
  have t: "ticked idle_input (levelling_at e) = (levelling_at e)\<lparr>w_elapsed := e + 1 / 50\<rparr>"
    by (simp add: ticked_def idle_input_def levelling_at_def)
  have "frame half idle_input (levelling_at e) = Some (draw (win_death_check (level_up_check
     (start_world\<lparr>w_player := mage\<lparr>pl_xp := 5, pl_attack_timer := - 1 / 50\<rparr>,
         w_elapsed := e + 1 / 50, w_spawn_acc := 1 / 50, w_cam_x := 800, w_cam_y := 600\<rparr>))))"
  proof (rule frame_idle_eval [OF t _ _ _ _ fought_levelling])
    show "w_state (levelling_at e\<lparr>w_elapsed := e + 1 / 50\<rparr>) = ''playing''"
      by (simp add: levelling_at_def start_world_def)
    show "\<lfloor>w_elapsed (levelling_at e\<lparr>w_elapsed := e + 1 / 50\<rparr>) / 60\<rfloor> = \<lfloor>(e + 1 / 50) / 60\<rfloor>" by simp
    show "real (in_tick_ms idle_input) / 1000 = 1 / 50" by (simp add: idle_input_def)
    show "w_spawn_acc (levelling_at e\<lparr>w_elapsed := e + 1 / 50\<rparr>) + 1 / 50 < spawn_interval \<lfloor>(e + 1 / 50) / 60\<rfloor>"
      using spawn_interval_pos [of "\<lfloor>(e + 1 / 50) / 60\<rfloor>"]
      by (simp add: levelling_at_def start_world_def)
  qed
  then show ?thesis
    by (simp add: start_world_def mage_def level_up_check_def win_death_check_def draw_def
         update_camera_def config_defs clamp_def levelled_at_def)
qed

text \<open>
  Claim C6, as amended. A frame that runs the playing block increments the player's level
  by exactly one when the experience at the level-up check is at least five times the
  level, and leaves it unchanged otherwise; the state then becomes \<open>levelup\<close> unless the
  win or death check of the same frame overrides it. Resolving the menu with key 1, 2 or
  3 applies the chosen increment, returns the state to \<open>playing\<close> and leaves the level as
  it is.
\<close>

theorem level_up_once:
  "(\<exists>w'. frame g inp w = Some w'
      \<and> (w_state (handle_events (in_events inp) w) = ''playing'' \<longrightarrow>
           (if pl_level (w_player w) * 5 \<le> pl_xp (w_player w')
            then pl_level (w_player w') = pl_level (w_player w) + 1
               \<and> w_state w' = (if pl_hp (w_player w') \<le> 0 then ''dead''
                                else if real_of_int LEVEL_DURATION_SECONDS \<le> w_elapsed w' then ''win''
                                else ''levelup'')
            else pl_level (w_player w') = pl_level (w_player w) \<and> w_state w' \<noteq> ''levelup'')))
   \<and> (w_state w = ''levelup'' \<longrightarrow>
        handle_event (KEYDOWN K_1) w =
          w\<lparr>w_player := (w_player w)\<lparr>pl_proj_dmg := pl_proj_dmg (w_player w) + real_of_int (8 + pl_level (w_player w) * 2),
                                      pl_attack_range := pl_attack_range (w_player w) + 10\<rparr>,
            w_state := ''playing''\<rparr>
      \<and> handle_event (KEYDOWN K_2) w =
          w\<lparr>w_player := (w_player w)\<lparr>pl_speed := pl_speed (w_player w) + 40\<rparr>, w_state := ''playing''\<rparr>
      \<and> handle_event (KEYDOWN K_3) w =
          w\<lparr>w_player := (w_player w)\<lparr>pl_hp := pl_hp (w_player w) + 40\<rparr>, w_state := ''playing''\<rparr>)"
proof -
  have menu: "w_state w = ''levelup'' \<longrightarrow>
        handle_event (KEYDOWN K_1) w =
          w\<lparr>w_player := (w_player w)\<lparr>pl_proj_dmg := pl_proj_dmg (w_player w) + real_of_int (8 + pl_level (w_player w) * 2),
                                      pl_attack_range := pl_attack_range (w_player w) + 10\<rparr>,
            w_state := ''playing''\<rparr>
      \<and> handle_event (KEYDOWN K_2) w =
          w\<lparr>w_player := (w_player w)\<lparr>pl_speed := pl_speed (w_player w) + 40\<rparr>, w_state := ''playing''\<rparr>
      \<and> handle_event (KEYDOWN K_3) w =
          w\<lparr>w_player := (w_player w)\<lparr>pl_hp := pl_hp (w_player w) + 40\<rparr>, w_state := ''playing''\<rparr>"
    by (simp add: Let_def)
  show ?thesis
  proof (cases "w_state (handle_events (in_events inp) w) = ''playing''")
    case True
    from frame_playing [OF True, of g] obtain v where
      v: "frame g inp w = Some (draw (win_death_check (level_up_check v)))"
        "w_state v = ''playing''" "pl_level (w_player v) = pl_level (w_player w)" by blast
    have "pl_level (w_player w) * 5 \<le> pl_xp (w_player v) \<Longrightarrow>
        pl_level (w_player (level_up_check v)) = pl_level (w_player w) + 1
        \<and> w_state (win_death_check (level_up_check v))
          = (if pl_hp (w_player v) \<le> 0 then ''dead''
             else if real_of_int LEVEL_DURATION_SECONDS \<le> w_elapsed v then ''win'' else ''levelup'')"
      using v(3) by (simp add: level_up_check_def win_death_check_def Let_def)
    moreover have "\<not> pl_level (w_player w) * 5 \<le> pl_xp (w_player v) \<Longrightarrow>
        pl_level (w_player (level_up_check v)) = pl_level (w_player w)
        \<and> w_state (win_death_check (level_up_check v)) \<noteq> ''levelup''"
      using v(2,3) by (simp add: level_up_check_def win_death_check_def Let_def)
    ultimately show ?thesis
      using menu by (simp add: v(1) draw_keeps checks_keep)
  next
    case False
    then show ?thesis using menu by (simp add: frame_other)
  qed
qed

theorem level_up_once_witness:
  "frame half idle_input (levelling_at 30) = Some (levelled_at (1501 / 50) ''levelup'')
   \<and> w_state (handle_events (in_events idle_input) (levelling_at 30)) = ''playing''
   \<and> pl_level (w_player (levelling_at 30)) * 5 \<le> pl_xp (w_player (levelled_at (1501 / 50) ''levelup''))
   \<and> pl_level (w_player (levelled_at (1501 / 50) ''levelup'')) = pl_level (w_player (levelling_at 30)) + 1
   \<and> w_state (levelled_at (1501 / 50) ''levelup'') = ''levelup''
   \<and> handle_event (KEYDOWN K_1) (levelled_at (1501 / 50) ''levelup'') =
        (levelled_at (1501 / 50) ''playing'')\<lparr>w_player :=
           (w_player (levelled_at (1501 / 50) ''playing''))\<lparr>pl_proj_dmg := 40, pl_attack_range := 530\<rparr>\<rparr>"
proof -
  have f: "frame half idle_input (levelling_at 30) = Some (levelled_at (1501 / 50) ''levelup'')"
    using levelling_frame [of 30] by (simp add: config_defs)
  have p: "w_state (handle_events (in_events idle_input) (levelling_at 30)) = ''playing''"
    by (simp add: idle_input_def levelling_at_def start_world_def)
  have x: "pl_level (w_player (levelling_at 30)) * 5 \<le> pl_xp (w_player (levelled_at (1501 / 50) ''levelup''))"
    by (simp add: levelling_at_def levelled_at_def mage_def start_world_def)
  have l: "w_state (levelled_at (1501 / 50) ''levelup'') = ''levelup''"
    by (simp add: levelled_at_def)
  have a: "pl_level (w_player (levelled_at (1501 / 50) ''levelup'')) = pl_level (w_player (levelling_at 30)) + 1"
    using level_up_once [of half idle_input "levelling_at 30"] f p x by simp
  have m: "handle_event (KEYDOWN K_1) (levelled_at (1501 / 50) ''levelup'') =
        (levelled_at (1501 / 50) ''playing'')\<lparr>w_player :=
           (w_player (levelled_at (1501 / 50) ''playing''))\<lparr>pl_proj_dmg := 40, pl_attack_range := 530\<rparr>\<rparr>"
    using level_up_once [of half idle_input "levelled_at (1501 / 50) ''levelup''"] l
    by (simp add: levelled_at_def start_world_def mage_def)
  show ?thesis using f p x a l m by simp
qed

lemma move_player_still: "no_direction keys \<Longrightarrow> move_player keys dt w = w"
  by (simp add: move_player_def no_direction_def)

lemma quiet_fought:
  assumes "w_mobs w = []" "w_projectile_list w = []" "w_lava_pools w = []"
  shows "fought g minute dt w = w\<lparr>w_player := (w_player w)\<lparr>pl_attack_timer := pl_attack_timer (w_player w) - dt\<rparr>\<rparr>"
  using assms by (simp add: fought_def Let_def player_attack_def)

lemma quiet_frame:
  assumes q: "quiet w" and ev: "in_events inp = []" and still: "no_direction (in_keys inp)"
    and dt: "dt = real (in_tick_ms inp) / 1000"
    and sp: "w_spawn_acc w + dt < spawn_interval \<lfloor>(w_elapsed w + dt) / 60\<rfloor>"
    and el: "w_elapsed w + dt < real_of_int LEVEL_DURATION_SECONDS"
  shows "\<exists>w'. frame g inp w = Some w' \<and> quiet w' \<and> w_elapsed w' = w_elapsed w + dt
      \<and> w_spawn_acc w' = w_spawn_acc w + dt
      \<and> pl_hp (w_player w') = pl_hp (w_player w) \<and> pl_x (w_player w') = pl_x (w_player w)
      \<and> pl_y (w_player w') = pl_y (w_player w)"
proof -
  define t where "t = w\<lparr>w_elapsed := w_elapsed w + dt\<rparr>"
  have t: "ticked inp w = t" by (simp add: ticked_def ev t_def dt)
  define e where "e = entered (in_keys inp) dt t"
  have e: "e = (update_camera t)\<lparr>w_spawn_acc := w_spawn_acc w + dt\<rparr>"
    by (simp add: e_def entered_def move_player_still [OF still] t_def)
  define v where "v = e\<lparr>w_player := (w_player e)\<lparr>pl_attack_timer := pl_attack_timer (w_player e) - dt\<rparr>\<rparr>"
  have fo: "fought g \<lfloor>(w_elapsed w + dt) / 60\<rfloor> dt (entered (in_keys inp) dt t) = v"
    unfolding v_def e_def [symmetric]
    by (rule quiet_fought) (use q in \<open>simp_all add: e quiet_def update_camera_def t_def\<close>)
  have f: "frame g inp w = Some (draw (win_death_check (level_up_check v)))"
  proof (rule frame_idle_eval [OF t _ _ _ _ fo])
    show "w_state t = ''playing''" using q by (simp add: t_def quiet_def)
    show "\<lfloor>w_elapsed t / 60\<rfloor> = \<lfloor>(w_elapsed w + dt) / 60\<rfloor>" by (simp add: t_def)
    show "real (in_tick_ms inp) / 1000 = dt" by (simp add: dt)
    show "w_spawn_acc t + dt < spawn_interval \<lfloor>(w_elapsed w + dt) / 60\<rfloor>"
      using sp by (simp add: t_def)
  qed
  have "draw (win_death_check (level_up_check v)) = update_camera v"
    using q el by (simp add: level_up_check_def win_death_check_def draw_def Let_def v_def e
        update_camera_def t_def quiet_def)
  then have f': "frame g inp w = Some (update_camera v)" using f by simp
  show ?thesis
    using q by (simp add: f' update_camera_def v_def e t_def quiet_def)
qed

lemma quiet_run:
  assumes "quiet w"
    and "\<forall>inp\<in>set inps. in_events inp = [] \<and> no_direction (in_keys inp)"
    and "w_spawn_acc w + seconds inps < spawn_interval \<lfloor>(w_elapsed w + seconds inps) / 60\<rfloor>"
    and "w_elapsed w + seconds inps < real_of_int LEVEL_DURATION_SECONDS"
  shows "\<exists>w'. run g inps w = Some w' \<and> quiet w' \<and> w_elapsed w' = w_elapsed w + seconds inps
      \<and> pl_hp (w_player w') = pl_hp (w_player w) \<and> pl_x (w_player w') = pl_x (w_player w)
      \<and> pl_y (w_player w') = pl_y (w_player w)"
  using assms
proof (induction inps arbitrary: w)
  case Nil
  then show ?case by (simp add: seconds_def)
next
  case (Cons inp inps)
  define dt where "dt = real (in_tick_ms inp) / 1000"
  have s: "seconds (inp # inps) = dt + seconds inps" by (simp add: seconds_def dt_def add_divide_distrib)
  have nn: "0 \<le> dt" "0 \<le> seconds inps" by (simp_all add: dt_def seconds_def)
  have "\<lfloor>(w_elapsed w + dt) / 60\<rfloor> \<le> \<lfloor>(w_elapsed w + seconds (inp # inps)) / 60\<rfloor>"
    using nn by (intro floor_mono) (simp add: s)
  then have "spawn_interval \<lfloor>(w_elapsed w + seconds (inp # inps)) / 60\<rfloor> \<le> spawn_interval \<lfloor>(w_elapsed w + dt) / 60\<rfloor>"
    by (rule spawn_interval_antimono)
  then have sp: "w_spawn_acc w + dt < spawn_interval \<lfloor>(w_elapsed w + dt) / 60\<rfloor>"
    using Cons.prems(3) nn by (simp add: s)
  have el: "w_elapsed w + dt < real_of_int LEVEL_DURATION_SECONDS"
    using Cons.prems(4) nn by (simp add: s)
  from quiet_frame [OF Cons.prems(1) _ _ dt_def sp el, of g] Cons.prems(2)
  obtain w1 where w1: "frame g inp w = Some w1" "quiet w1" "w_elapsed w1 = w_elapsed w + dt"
      "w_spawn_acc w1 = w_spawn_acc w + dt"
      "pl_hp (w_player w1) = pl_hp (w_player w)" "pl_x (w_player w1) = pl_x (w_player w)"
      "pl_y (w_player w1) = pl_y (w_player w)"
    by auto
  have "\<exists>w'. run g inps w1 = Some w' \<and> quiet w' \<and> w_elapsed w' = w_elapsed w1 + seconds inps
      \<and> pl_hp (w_player w') = pl_hp (w_player w1) \<and> pl_x (w_player w') = pl_x (w_player w1)
      \<and> pl_y (w_player w') = pl_y (w_player w1)"
  proof (rule Cons.IH [OF w1(2)])
    show "\<forall>inp\<in>set inps. in_events inp = [] \<and> no_direction (in_keys inp)"
      using Cons.prems(2) by simp
    show "w_spawn_acc w1 + seconds inps < spawn_interval \<lfloor>(w_elapsed w1 + seconds inps) / 60\<rfloor>"
      using Cons.prems(3) by (simp add: w1 s add.assoc)
    show "w_elapsed w1 + seconds inps < real_of_int LEVEL_DURATION_SECONDS"
      using Cons.prems(4) by (simp add: w1 s add.assoc)
  qed
  then show ?case
    using Cons.prems(1) w1 by (auto simp: quiet_def s add.assoc)
qed

lemma frame_keeps_position:
  assumes "no_direction (in_keys inp)"
  shows "\<exists>w'. frame g inp w = Some w' \<and> pl_x (w_player w') = pl_x (w_player w)
            \<and> pl_y (w_player w') = pl_y (w_player w)"
proof (cases "w_state (handle_events (in_events inp) w) = ''playing''")
  case True
  from frame_playing [OF True, of g] obtain v where
    "frame g inp w = Some (draw (win_death_check (level_up_check v)))"
    "pl_x (w_player v) = pl_x (w_player (move_player (in_keys inp) (real (in_tick_ms inp) / 1000) (ticked inp w)))"
    "pl_y (w_player v) = pl_y (w_player (move_player (in_keys inp) (real (in_tick_ms inp) / 1000) (ticked inp w)))"
    by blast
  then show ?thesis
    by (simp add: draw_keeps checks_keep move_player_still [OF assms] ticked_keeps handle_events_keeps)
next
  case False
  then show ?thesis by (simp add: frame_other draw_keeps ticked_keeps handle_events_keeps)
qed
section \<open>A second without input\<close>

lemma half_search:
  "tries \<le> 300 \<Longrightarrow>
   spawn_search half i 1200 900 obstacles tries iters =
     Some \<lparr>place_x = 1200, place_y = 900, place_rng = i + 4 * (300 - tries) + 6,
           place_exit = Fallback_near_player, place_tries = 301, place_iters = iters + (301 - tries)\<rparr>"
proof (induction "300 - tries" arbitrary: tries i iters)
  case 0
  then have "tries = 300" by simp
  then show ?case
    by (subst spawn_search.simps)
       (simp add: Let_def half_def config_defs randint_def uniform_def clamp_def distance_def)
next
  case (Suc n)
  then have lt: "tries < 300" and n: "n = 300 - (tries + 1)" by simp_all
  have "spawn_search half i 1200 900 obstacles tries iters
      = spawn_search half (i + 4) 1200 900 obstacles (tries + 1) (iters + 1)"
    using lt by (subst spawn_search.simps)
       (simp add: Let_def half_def config_defs randint_def uniform_def clamp_def distance_def)
  also have "\<dots> = Some \<lparr>place_x = 1200, place_y = 900, place_rng = (i + 4) + 4 * (300 - (tries + 1)) + 6,
           place_exit = Fallback_near_player, place_tries = 301, place_iters = (iters + 1) + (301 - (tries + 1))\<rparr>"
    using Suc.hyps(1) [OF n] lt by simp
  finally show ?case using lt by (simp, presburger)
qed

lemma half_spawn:
  "spawn_mob half i 0 1200 900 obstacles =
     Some \<lparr>sp_mob = ambusher, sp_rng = i + 1211,
           sp_place = \<lparr>place_x = 1200, place_y = 900, place_rng = i + 1206,
             place_exit = Fallback_near_player, place_tries = 301, place_iters = 301\<rparr>\<rparr>"
  by (simp add: spawn_mob_def half_search Let_def)
     (simp add: half_def choices_enemy_def ENEMY_TYPES_def uniform_def randint_def ambusher_def)

lemma frame_eval:
  assumes "ticked inp w = t" and "w_state t = ''playing''"
    and "\<lfloor>w_elapsed t / 60\<rfloor> = minute" and "real (in_tick_ms inp) / 1000 = dt"
    and "spawn_due g minute (entered (in_keys inp) dt t) = Some w2"
    and "fought g minute dt w2 = v"
  shows "frame g inp w = Some (draw (win_death_check (level_up_check v)))"
proof -
  have "playing_frame g minute dt (in_keys inp) t = Some (simulate g minute dt w2)"
    using assms(5) by (simp add: playing_frame_def entered_def Let_def update_camera_def move_player_keeps)
  then show ?thesis
    using assms by (simp add: frame_eq simulate_fought)
qed

lemma idle_seconds: "seconds (replicate n idle_input) = real n / 50"
  by (simp add: seconds_def idle_input_def sum_list_replicate)

lemma idle_inputs: "\<forall>inp\<in>set (replicate n idle_input). in_events inp = [] \<and> no_direction (in_keys inp)"
  by (simp add: idle_input_def no_direction_def no_keys_def)

text \<open>
  Claim C9, as amended. A frame with no directional key held leaves the player's position
  unchanged. From a playing world with no mobs, projectiles or lava pools, positive hit
  points and experience below the threshold, frames without events and directional keys
  that add up to one second leave hit points and position unchanged, add 1 to the elapsed
  time and keep the state \<open>playing\<close>, provided the level duration is not reached and no
  spawn falls due within that second (the spawn accumulator plus 1 stays below the spawn
  interval, as it does at game start).
\<close>

theorem zero_input_second:
  "(no_direction (in_keys inp) \<longrightarrow>
      (\<exists>w'. frame g inp w = Some w' \<and> pl_x (w_player w') = pl_x (w_player w)
            \<and> pl_y (w_player w') = pl_y (w_player w)))
   \<and> (quiet w \<and> (\<forall>i\<in>set inps. in_events i = [] \<and> no_direction (in_keys i)) \<and> seconds inps = 1
        \<and> w_elapsed w + 1 < real_of_int LEVEL_DURATION_SECONDS
        \<and> w_spawn_acc w + 1 < spawn_interval \<lfloor>(w_elapsed w + 1) / 60\<rfloor>
      \<longrightarrow> (\<exists>w'. run g inps w = Some w' \<and> pl_hp (w_player w') = pl_hp (w_player w)
            \<and> pl_x (w_player w') = pl_x (w_player w) \<and> pl_y (w_player w') = pl_y (w_player w)
            \<and> w_elapsed w' = w_elapsed w + 1 \<and> w_state w' = ''playing''))"
proof (intro conjI impI)
  assume "no_direction (in_keys inp)"
  then show "\<exists>w'. frame g inp w = Some w' \<and> pl_x (w_player w') = pl_x (w_player w)
            \<and> pl_y (w_player w') = pl_y (w_player w)"
    by (rule frame_keeps_position)
next
  assume a: "quiet w \<and> (\<forall>i\<in>set inps. in_events i = [] \<and> no_direction (in_keys i)) \<and> seconds inps = 1
        \<and> w_elapsed w + 1 < real_of_int LEVEL_DURATION_SECONDS
        \<and> w_spawn_acc w + 1 < spawn_interval \<lfloor>(w_elapsed w + 1) / 60\<rfloor>"
  have "\<exists>w'. run g inps w = Some w' \<and> quiet w' \<and> w_elapsed w' = w_elapsed w + seconds inps
      \<and> pl_hp (w_player w') = pl_hp (w_player w) \<and> pl_x (w_player w') = pl_x (w_player w)
      \<and> pl_y (w_player w') = pl_y (w_player w)"
    by (rule quiet_run) (use a in simp_all)
  then show "\<exists>w'. run g inps w = Some w' \<and> pl_hp (w_player w') = pl_hp (w_player w)
            \<and> pl_x (w_player w') = pl_x (w_player w) \<and> pl_y (w_player w') = pl_y (w_player w)
            \<and> w_elapsed w' = w_elapsed w + 1 \<and> w_state w' = ''playing''"
    using a by (auto simp: quiet_def)
qed

theorem zero_input_second_witness:
  "no_direction (in_keys idle_input) \<and> quiet start_world \<and> seconds (replicate 50 idle_input) = 1
   \<and> pl_x (w_player start_world) = real_of_int (WORLD_W div 2)
   \<and> pl_y (w_player start_world) = real_of_int (WORLD_H div 2)
   \<and> (\<exists>w'. frame half idle_input start_world = Some w' \<and> pl_x (w_player w') = 1200 \<and> pl_y (w_player w') = 900)
   \<and> (\<exists>w'. run half (replicate 50 idle_input) start_world = Some w' \<and> pl_hp (w_player w') = 100
         \<and> pl_x (w_player w') = 1200 \<and> pl_y (w_player w') = 900 \<and> w_elapsed w' = 1
         \<and> w_state w' = ''playing'')"
proof -
  have n: "no_direction (in_keys idle_input)"
    by (simp add: idle_input_def no_direction_def no_keys_def)
  have q: "quiet start_world"
    by (simp add: quiet_def start_world_def mage_def)
  have s: "seconds (replicate 50 idle_input) = 1" by (simp add: idle_seconds)
  have e: "w_elapsed start_world + 1 < real_of_int LEVEL_DURATION_SECONDS"
    by (simp add: start_world_def config_defs)
  have a: "w_spawn_acc start_world + 1 < spawn_interval \<lfloor>(w_elapsed start_world + 1) / 60\<rfloor>"
    by (simp add: start_world_def spawn_interval_def BASE_SPAWN_def)
  have p: "pl_x (w_player start_world) = 1200" "pl_y (w_player start_world) = 900"
    "pl_hp (w_player start_world) = 100" "w_elapsed start_world = 0"
    by (simp_all add: start_world_def mage_def)
  show ?thesis
    using zero_input_second [of idle_input half start_world "replicate 50 idle_input"]
      n q s e a idle_inputs [of 50]
    by (simp add: p config_defs)
qed

section \<open>Where a spawned mob stands\<close>

lemma spawn_mob_trace:
  assumes "spawn_mob g i minute px py obstacles = Some sp"
  shows "\<exists>n. place_iters (sp_place sp) = n + 1
     \<and> (\<forall>k<n. rejected px py obstacles (candidate g (i + 4 * k)))
     \<and> (if place_exit (sp_place sp) = All_good
        then (mob_x (sp_mob sp), mob_y (sp_mob sp)) = candidate g (i + 4 * n)
           \<and> 300 \<le> distance (mob_x (sp_mob sp)) (mob_y (sp_mob sp)) px py
           \<and> (\<forall>ob\<in>set obstacles.
                 \<not> collidepoint (inflate (obs_rect ob) (OBSTACLE_SAFETY_MARGIN * 2) (OBSTACLE_SAFETY_MARGIN * 2))
                     (mob_x (sp_mob sp)) (mob_y (sp_mob sp)))
        else 300 \<le> n \<and> rejected px py obstacles (candidate g (i + 4 * n))
           \<and> mob_x (sp_mob sp) = uniform 0 (real_of_int WORLD_W) (g (i + 4 * n + 4))
           \<and> mob_y (sp_mob sp) = uniform 0 (real_of_int WORLD_H) (g (i + 4 * n + 5)))"
proof -
  obtain pl where pl: "spawn_search g i px py obstacles 0 0 = Some pl" "traced g i px py obstacles 0 0 pl"
    using spawn_search_traced by blast
  have sp: "sp_place sp = pl" "mob_x (sp_mob sp) = place_x pl" "mob_y (sp_mob sp) = place_y pl"
    using assms pl(1) by (auto simp: spawn_mob_def Let_def)
  from pl(2) obtain n where n: "place_iters pl = n + 1"
    "\<forall>k<n. rejected px py obstacles (candidate g (i + 4 * k))"
    and c: "case place_exit pl of
              All_good \<Rightarrow>
                \<not> rejected px py obstacles (candidate g (i + 4 * n))
                \<and> (place_x pl, place_y pl) = candidate g (i + 4 * n)
                \<and> place_tries pl = 0 + n \<and> place_rng pl = i + 4 * n + 4
            | Fallback_near_player \<Rightarrow>
                too_near px py (candidate g (i + 4 * n)) \<and> 300 < 0 + n + 1
                \<and> place_tries pl = 0 + n + 1
                \<and> place_x pl = uniform 0 (real_of_int WORLD_W) (g (i + 4 * n + 4))
                \<and> place_y pl = uniform 0 (real_of_int WORLD_H) (g (i + 4 * n + 5))
                \<and> place_rng pl = i + 4 * n + 6
            | Fallback_inside_obstacle \<Rightarrow>
                \<not> too_near px py (candidate g (i + 4 * n))
                \<and> inside_obs obstacles (fst (candidate g (i + 4 * n))) (snd (candidate g (i + 4 * n)))
                \<and> 500 < 0 + n + 1 \<and> place_tries pl = 0 + n + 1
                \<and> place_x pl = uniform 0 (real_of_int WORLD_W) (g (i + 4 * n + 4))
                \<and> place_y pl = uniform 0 (real_of_int WORLD_H) (g (i + 4 * n + 5))
                \<and> place_rng pl = i + 4 * n + 6"
    unfolding traced_def by auto
  have "if place_exit pl = All_good
        then (place_x pl, place_y pl) = candidate g (i + 4 * n)
           \<and> 300 \<le> distance (place_x pl) (place_y pl) px py
           \<and> (\<forall>ob\<in>set obstacles.
                 \<not> collidepoint (inflate (obs_rect ob) (OBSTACLE_SAFETY_MARGIN * 2) (OBSTACLE_SAFETY_MARGIN * 2))
                     (place_x pl) (place_y pl))
        else 300 \<le> n \<and> rejected px py obstacles (candidate g (i + 4 * n))
           \<and> place_x pl = uniform 0 (real_of_int WORLD_W) (g (i + 4 * n + 4))
           \<and> place_y pl = uniform 0 (real_of_int WORLD_H) (g (i + 4 * n + 5))"
  proof (cases "place_exit pl")
    case All_good
    with c have a: "\<not> rejected px py obstacles (candidate g (i + 4 * n))"
      "(place_x pl, place_y pl) = candidate g (i + 4 * n)" by simp_all
    have f: "fst (candidate g (i + 4 * n)) = place_x pl" "snd (candidate g (i + 4 * n)) = place_y pl"
      using a(2) by (simp_all flip: a(2))
    show ?thesis
      using a All_good by (simp add: rejected_def too_near_def f inside_obs_iff)
  next
    case Fallback_near_player
    with c show ?thesis by (simp add: rejected_def)
  next
    case Fallback_inside_obstacle
    with c show ?thesis by (simp add: rejected_def)
  qed
  then show ?thesis using n by (auto simp: sp)
qed

text \<open>
  Claim C3. \<open>spawn_mob\<close> reads its candidate positions \<open>candidate g i\<close>,
  \<open>candidate g (i + 4)\<close>, ... from the random stream; a candidate is rejected when it is
  closer than 300 to the player or inside an obstacle rectangle inflated by the safety
  margin. For every mob returned there is an \<open>n\<close> such that the first \<open>n\<close> candidates
  were rejected and either the mob stands on candidate \<open>n\<close>, at a distance of at least
  300 from the player and inside no inflated obstacle rectangle, or the bounded-retry
  budget was exhausted: candidate \<open>n\<close> was rejected as well, \<open>n\<close> is at least 300 (at
  least 301 candidates in a row were rejected), and the mob stands on the uniform-random
  fallback position, drawn from the next two values of the stream.
\<close>

theorem spawn_mob_position_safe:
  assumes "spawn_mob g i minute px py obstacles = Some sp"
  shows "\<exists>n. (\<forall>k<n. rejected px py obstacles (candidate g (i + 4 * k)))
     \<and> ((mob_x (sp_mob sp), mob_y (sp_mob sp)) = candidate g (i + 4 * n)
          \<and> 300 \<le> distance (mob_x (sp_mob sp)) (mob_y (sp_mob sp)) px py
          \<and> (\<forall>ob\<in>set obstacles.
                \<not> collidepoint (inflate (obs_rect ob) (OBSTACLE_SAFETY_MARGIN * 2) (OBSTACLE_SAFETY_MARGIN * 2))
                    (mob_x (sp_mob sp)) (mob_y (sp_mob sp)))
        \<or> 300 \<le> n \<and> rejected px py obstacles (candidate g (i + 4 * n))
          \<and> mob_x (sp_mob sp) = uniform 0 (real_of_int WORLD_W) (g (i + 4 * n + 4))
          \<and> mob_y (sp_mob sp) = uniform 0 (real_of_int WORLD_H) (g (i + 4 * n + 5)))"
proof -
  from spawn_mob_trace [OF assms]
  obtain n where n: "\<forall>k<n. rejected px py obstacles (candidate g (i + 4 * k))"
    "if place_exit (sp_place sp) = All_good
        then (mob_x (sp_mob sp), mob_y (sp_mob sp)) = candidate g (i + 4 * n)
           \<and> 300 \<le> distance (mob_x (sp_mob sp)) (mob_y (sp_mob sp)) px py
           \<and> (\<forall>ob\<in>set obstacles.
                 \<not> collidepoint (inflate (obs_rect ob) (OBSTACLE_SAFETY_MARGIN * 2) (OBSTACLE_SAFETY_MARGIN * 2))
                     (mob_x (sp_mob sp)) (mob_y (sp_mob sp)))
        else 300 \<le> n \<and> rejected px py obstacles (candidate g (i + 4 * n))
           \<and> mob_x (sp_mob sp) = uniform 0 (real_of_int WORLD_W) (g (i + 4 * n + 4))
           \<and> mob_y (sp_mob sp) = uniform 0 (real_of_int WORLD_H) (g (i + 4 * n + 5))"
    by blast
  show ?thesis
  proof (cases "place_exit (sp_place sp) = All_good")
    case True
    then show ?thesis using n by (intro exI [of _ n]) simp
  next
    case False
    then show ?thesis using n by (intro exI [of _ n]) simp
  qed
qed

lemma quarter_candidate: "candidate (\<lambda>_. 1 / 4) j = (550, 350)"
  by (simp add: candidate_def Let_def config_defs randint_def uniform_def clamp_def)

lemma half_candidate: "candidate half j = (1200, 1000)"
  by (simp add: candidate_def Let_def half_def config_defs randint_def uniform_def clamp_def)

theorem spawn_mob_position_safe_witness:
  "spawn_mob (\<lambda>_. 1 / 4) 0 0 1200 900 [\<lparr>obs_rect = Rect 500 300 40 40, obs_kind = ''rock''\<rparr>]
     = Some \<lparr>sp_mob = \<lparr>mob_x = 550, mob_y = 350, mob_hp = 41 / 2, mob_speed = 51,
                        mob_type = ''melee'', mob_cooldown = 23 / 20, mob_id = 250000\<rparr>,
             sp_rng = 9,
             sp_place = \<lparr>place_x = 550, place_y = 350, place_rng = 4, place_exit = All_good,
                         place_tries = 0, place_iters = 1\<rparr>\<rparr>
   \<and> candidate (\<lambda>_. 1 / 4) 0 = (550, 350)
   \<and> 300 \<le> distance 550 350 1200 900
   \<and> \<not> collidepoint (inflate (Rect 500 300 40 40) (OBSTACLE_SAFETY_MARGIN * 2) (OBSTACLE_SAFETY_MARGIN * 2)) 550 350
   \<and> spawn_mob half 0 0 1200 900 sample_obstacles
     = Some \<lparr>sp_mob = ambusher, sp_rng = 1211,
           sp_place = \<lparr>place_x = 1200, place_y = 900, place_rng = 1206,
             place_exit = Fallback_near_player, place_tries = 301, place_iters = 301\<rparr>\<rparr>
   \<and> rejected 1200 900 sample_obstacles (candidate half 1200)
   \<and> mob_x ambusher = uniform 0 (real_of_int WORLD_W) (half 1204)
   \<and> mob_y ambusher = uniform 0 (real_of_int WORLD_H) (half 1205)"
proof -
  have m: "spawn_mob (\<lambda>_. 1 / 4) 0 0 1200 900 [\<lparr>obs_rect = Rect 500 300 40 40, obs_kind = ''rock''\<rparr>]
     = Some \<lparr>sp_mob = \<lparr>mob_x = 550, mob_y = 350, mob_hp = 41 / 2, mob_speed = 51,
                        mob_type = ''melee'', mob_cooldown = 23 / 20, mob_id = 250000\<rparr>,
             sp_rng = 9,
             sp_place = \<lparr>place_x = 550, place_y = 350, place_rng = 4, place_exit = All_good,
                         place_tries = 0, place_iters = 1\<rparr>\<rparr>"
    by (rule quarter_spawn)
  have h: "spawn_mob half 0 0 1200 900 sample_obstacles
     = Some \<lparr>sp_mob = ambusher, sp_rng = 1211,
           sp_place = \<lparr>place_x = 1200, place_y = 900, place_rng = 1206,
             place_exit = Fallback_near_player, place_tries = 301, place_iters = 301\<rparr>\<rparr>"
    using half_spawn [of 0 sample_obstacles] by simp
  have far: "\<not> rejected 1200 900 [\<lparr>obs_rect = Rect 500 300 40 40, obs_kind = ''rock''\<rparr>] (550, 350)"
    by (simp add: rejected_def too_near_def inside_obs_iff distance_def hypot_less_iff
        collidepoint_def inflate_def Rect_def config_defs)
  from spawn_mob_position_safe [OF m]
  have a: "300 \<le> distance 550 350 1200 900"
    "\<not> collidepoint (inflate (Rect 500 300 40 40) (OBSTACLE_SAFETY_MARGIN * 2) (OBSTACLE_SAFETY_MARGIN * 2)) 550 350"
    using far by (auto simp: quarter_candidate)
  from spawn_mob_position_safe [OF h]
  have b: "rejected 1200 900 sample_obstacles (candidate half 1200)"
    "mob_x ambusher = uniform 0 (real_of_int WORLD_W) (half 1204)"
    "mob_y ambusher = uniform 0 (real_of_int WORLD_H) (half 1205)"
    by (auto simp: half_candidate ambusher_def) (simp_all add: half_def)
  show ?thesis using m h a b by (simp add: quarter_candidate)
qed

section \<open>Contact damage\<close>

lemma scene_core:
  assumes "core w' = core w"
  shows "scene w' = scene w"
  using core_fields(1,8,9) [OF assms] by (simp add: scene_def)

lemma scene_simps [simp]:
  "scene (hurt_player d w) = scene w"
  "scene (w\<lparr>w_mobs := ms\<rparr>) = scene w"
  "scene (w\<lparr>w_projectile_list := ps\<rparr>) = scene w"
  "scene (w\<lparr>w_lava_pools := ls\<rparr>) = scene w"
  "scene (w\<lparr>w_player := (w_player w)\<lparr>pl_xp := xp\<rparr>\<rparr>) = scene w"
  by (simp_all add: scene_def hurt_player_def)

lemma fst_if_pair: "fst (if c then (a, x) else (a, y)) = a"
  by simp

lemma fst_update_melee:
  "fst (update_melee dt m w) =
     steer (w_obstacles w) m (mob_speed m * dt)
       (map (toward
          ((pl_x (w_player w) - mob_x m)
             / (if hypot (pl_x (w_player w) - mob_x m) (pl_y (w_player w) - mob_y m) = 0 then 1
                else hypot (pl_x (w_player w) - mob_x m) (pl_y (w_player w) - mob_y m)))
          ((pl_y (w_player w) - mob_y m)
             / (if hypot (pl_x (w_player w) - mob_x m) (pl_y (w_player w) - mob_y m) = 0 then 1
                else hypot (pl_x (w_player w) - mob_x m) (pl_y (w_player w) - mob_y m))))
          [0, radians 30, radians (- 30), radians 60, radians (- 60), radians 100, radians (- 100)])"
  unfolding update_melee_def Let_def by (rule fst_if_pair)

lemma touches_scene: "scene w' = scene w \<Longrightarrow> touches w' dt m = touches w dt m"
  unfolding touches_def contact_def fst_update_melee by (simp add: scene_def)

lemma strikes_scene: "scene w' = scene w \<Longrightarrow> strikes w' dt p = strikes w dt p"
  by (simp add: scene_def strikes_def)

lemma burns_scene: "scene w' = scene w \<Longrightarrow> burns w' dt l = burns w dt l"
  by (simp add: scene_def burns_def)

lemma if_pair: "(if c then (a, x) else (a, y)) = (a, if c then x else y)"
  by simp

lemma update_melee_pair:
  "update_melee dt m w =
     (fst (update_melee dt m w),
      if contact w (fst (update_melee dt m w)) then hurt_player (12 * dt) w else w)"
  unfolding update_melee_def Let_def contact_def if_pair fst_conv by (rule refl)

lemma update_shooter_hp: "pl_hp (w_player (snd (update_shooter g minute dt m w))) = pl_hp (w_player w)"
  unfolding update_shooter_def Let_def by (simp del: steer.simps)

lemma update_lava_mob_hp: "pl_hp (w_player (snd (update_lava_mob g dt m w))) = pl_hp (w_player w)"
  unfolding update_lava_mob_def Let_def by simp

lemma update_mob_hp:
  assumes "update_mob g minute dt m w = (m', w')"
  shows "pl_hp (w_player w') = pl_hp (w_player w) - (if touches w dt m then 12 * dt else 0)"
proof -
  define m0 where "m0 = m\<lparr>mob_cooldown := max 0 (mob_cooldown m - dt)\<rparr>"
  have ty: "mob_type m0 = mob_type m" by (simp add: m0_def)
  have u: "update_mob g minute dt m w =
      (if mob_type m = ''melee'' then update_melee dt m0 w
       else if mob_type m = ''shooter'' then update_shooter g minute dt m0 w
       else if mob_type m = ''lava'' then update_lava_mob g dt m0 w
       else (m0, w))"
    unfolding update_mob_def Let_def m0_def [symmetric] ty by (rule refl)
  consider (melee) "mob_type m = ''melee''"
    | (shooter) "mob_type m \<noteq> ''melee''" "mob_type m = ''shooter''"
    | (lava) "mob_type m \<noteq> ''melee''" "mob_type m \<noteq> ''shooter''" "mob_type m = ''lava''"
    | (other) "mob_type m \<noteq> ''melee''" "mob_type m \<noteq> ''shooter''" "mob_type m \<noteq> ''lava''"
    by blast
  then show ?thesis
  proof cases
    case melee
    have e: "update_melee dt m0 w = (m', w')" using assms u melee by simp
    have f: "fst (update_melee dt m0 w) = m'" by (simp add: e)
    have "w' = (if contact w m' then hurt_player (12 * dt) w else w)"
      using update_melee_pair [of dt m0 w, unfolded e] by simp
    then show ?thesis
      using melee f by (simp add: touches_def m0_def [symmetric] hurt_player_def)
  next
    case shooter
    have "w' = snd (update_shooter g minute dt m0 w)" using assms u shooter by simp
    then show ?thesis using shooter by (simp add: update_shooter_hp touches_def)
  next
    case lava
    have "w' = snd (update_lava_mob g dt m0 w)" using assms u lava by simp
    then show ?thesis using lava by (simp add: update_lava_mob_hp touches_def)
  next
    case other
    have "w' = w" using assms u other by simp
    then show ?thesis using other by (simp add: touches_def)
  qed
qed

lemma update_mobs_hp:
  "pl_hp (w_player (update_mobs g minute dt kept ms w))
     = pl_hp (w_player w) - 12 * dt * real (length (filter (touches w dt) ms))"
proof (induction ms arbitrary: kept w)
  case Nil
  show ?case by simp
next
  case (Cons m ms)
  obtain m' w' where u: "update_mob g minute dt m w = (m', w')" by fastforce
  have s: "scene w' = scene w" using update_mob_core [OF u] by (rule scene_core)
  have t: "touches w' dt = touches w dt" using touches_scene [OF s] by auto
  define x where "x = w'\<lparr>w_player := (w_player w')\<lparr>pl_xp := pl_xp (w_player w') + 1\<rparr>\<rparr>"
  have sx: "scene x = scene w" using s by (simp add: x_def)
  have tx: "touches x dt = touches w dt" using touches_scene [OF sx] by auto
  have hx: "pl_hp (w_player x) = pl_hp (w_player w')" by (simp add: x_def)
  have step: "update_mobs g minute dt kept (m # ms) w =
      (if mob_hp m' \<le> 0 then update_mobs g minute dt kept ms x else update_mobs g minute dt (kept @ [m']) ms w')"
    by (simp add: u x_def)
  have h: "pl_hp (w_player w') = pl_hp (w_player w) - (if touches w dt m then 12 * dt else 0)"
    by (rule update_mob_hp [OF u])
  show ?case
    unfolding step by (simp add: Cons.IH t tx hx h algebra_simps)
qed

lemma update_projectiles_hp:
  assumes "\<forall>p\<in>set ps. \<not> strikes w dt p"
  shows "pl_hp (w_player (update_projectiles dt kept ps w)) = pl_hp (w_player w)"
  using assms
proof (induction ps arbitrary: kept w)
  case Nil
  show ?case by simp
next
  case (Cons p ps)
  have n: "\<not> strikes w dt p" and r: "\<forall>q\<in>set ps. \<not> strikes w dt q" using Cons.prems by simp_all
  have r': "\<forall>q\<in>set ps. \<not> strikes (w\<lparr>w_mobs := ms\<rparr>) dt q" for ms
  proof -
    have "scene (w\<lparr>w_mobs := ms\<rparr>) = scene w" by simp
    from strikes_scene [OF this] show ?thesis using r by simp
  qed
  define p' where "p' = p\<lparr>pr_ttl := pr_ttl p - dt, pr_x := pr_x p + pr_vx p * dt, pr_y := pr_y p + pr_vy p * dt\<rparr>"
  have step: "update_projectiles dt kept (p # ps) w =
     (if pr_ttl p' \<le> 0 \<or> \<not> (0 \<le> pr_x p' \<and> pr_x p' \<le> real_of_int WORLD_W
                               \<and> 0 \<le> pr_y p' \<and> pr_y p' \<le> real_of_int WORLD_H) then
           update_projectiles dt kept ps w
         else if hits_obstacle (w_obstacles w) (pr_x p') (pr_y p') 4 then
           update_projectiles dt kept ps w
         else if pr_owner p' = ''mob''
                 \<and> distance (pr_x p') (pr_y p') (pl_x (w_player w)) (pl_y (w_player w))
                     \<le> real_of_int (PLAYER_RADIUS + 6) then
           update_projectiles dt kept ps (hurt_player (pr_dmg p') w)
         else if pr_owner p' = ''player'' then
           (case hit_first_mob (pr_x p') (pr_y p') (pr_dmg p') (w_mobs w) of
              Some ms \<Rightarrow> update_projectiles dt kept ps (w\<lparr>w_mobs := ms\<rparr>)
            | None \<Rightarrow> update_projectiles dt (kept @ [p']) ps w)
         else update_projectiles dt (kept @ [p']) ps w)"
    by (simp add: p'_def Let_def cong: option.case_cong)
  have ns: "\<not> (\<not> (pr_ttl p' \<le> 0 \<or> \<not> (0 \<le> pr_x p' \<and> pr_x p' \<le> real_of_int WORLD_W
                               \<and> 0 \<le> pr_y p' \<and> pr_y p' \<le> real_of_int WORLD_H))
       \<and> \<not> hits_obstacle (w_obstacles w) (pr_x p') (pr_y p') 4
       \<and> pr_owner p' = ''mob''
       \<and> distance (pr_x p') (pr_y p') (pl_x (w_player w)) (pl_y (w_player w)) \<le> real_of_int (PLAYER_RADIUS + 6))"
    using n by (simp add: strikes_def p'_def Let_def)
  show ?case
    unfolding step using ns Cons.IH [OF r] Cons.IH [OF r']
    by (auto split: option.splits)
qed

lemma update_lava_pools_hp:
  assumes "\<forall>l\<in>set ls. \<not> burns w dt l"
  shows "pl_hp (w_player (update_lava_pools dt kept ls w)) = pl_hp (w_player w)"
  using assms
proof (induction ls arbitrary: kept w)
  case Nil
  show ?case by simp
next
  case (Cons l ls)
  have n: "\<not> burns w dt l" and r: "\<forall>q\<in>set ls. \<not> burns w dt q" using Cons.prems by simp_all
  show ?case
    using n Cons.IH [OF r] by (auto simp: Let_def burns_def)
qed

lemma player_attack_hp: "pl_hp (w_player (player_attack dt w)) = pl_hp (w_player w)"
  by (simp add: player_attack_def Let_def split: list.splits)

lemma spawn_due_player:
  assumes "spawn_due g minute w = Some w2"
  shows "w_player w2 = w_player w" "core (w2\<lparr>w_spawn_acc := w_spawn_acc w\<rparr>) = core w"
proof -
  obtain a ms r where "spawn_due g minute w = Some (w\<lparr>w_spawn_acc := a, w_mobs := w_mobs w @ ms, w_rng := r\<rparr>)"
    using spawn_due_returns by blast
  then have w2: "w2 = w\<lparr>w_spawn_acc := a, w_mobs := w_mobs w @ ms, w_rng := r\<rparr>" using assms by simp
  show "w_player w2 = w_player w" by (simp add: w2)
  show "core (w2\<lparr>w_spawn_acc := w_spawn_acc w\<rparr>) = core w" by (simp add: w2 core_def)
qed

text \<open>
  Claim C8. Take a frame that starts in state \<open>playing\<close>, and let \<open>w2\<close> be the world its mob
  update starts from (after the clock, the events, the player's move and the spawns). If
  exactly one mob of \<open>w2\<close> is a melee mob that stands within \<open>MOB_RADIUS + PLAYER_RADIUS\<close>
  of the player at its contact check, no projectile present after the mob update strikes
  the player and no lava pool present after the mob update burns the player, then the
  frame lowers the player's hit points by exactly \<open>12 * dt\<close>.
\<close>

theorem melee_contact_damage:
  assumes "w_state w = ''playing''"
    and "dt = real (in_tick_ms inp) / 1000"
    and "minute = \<lfloor>(w_elapsed w + dt) / 60\<rfloor>"
    and "spawn_due g minute (entered (in_keys inp) dt (ticked inp w)) = Some w2"
    and "length (filter (touches w2 dt) (w_mobs w2)) = 1"
    and "\<forall>p\<in>set (w_projectile_list (update_mobs g minute dt [] (w_mobs w2) w2)). \<not> strikes w2 dt p"
    and "\<forall>l\<in>set (w_lava_pools (update_mobs g minute dt [] (w_mobs w2) w2)). \<not> burns w2 dt l"
  shows "\<exists>w'. frame g inp w = Some w' \<and> pl_hp (w_player w') = pl_hp (w_player w) - 12 * dt"
proof -
  define t where "t = ticked inp w"
  define w3 where "w3 = update_mobs g minute dt [] (w_mobs w2) w2"
  define w4 where "w4 = update_projectiles dt [] (w_projectile_list w3) w3"
  define w5 where "w5 = update_lava_pools dt [] (w_lava_pools w4) w4"
  have settled: "w_state (handle_events (in_events inp) w) = ''playing''"
      "w_player (handle_events (in_events inp) w) = w_player w"
    using handle_events_settled [of w "in_events inp"] assms(1) by simp_all
  have st: "w_state t = ''playing''" and pt: "w_player t = w_player w"
    using settled by (simp_all add: t_def ticked_keeps)
  have el: "\<lfloor>w_elapsed t / 60\<rfloor> = minute"
    unfolding assms(3) assms(2) t_def by (simp add: ticked_keeps)
  have f: "fought g minute dt w2 = player_attack dt w5"
    by (simp add: fought_def Let_def w3_def w4_def w5_def)
  have fr: "frame g inp w = Some (draw (win_death_check (level_up_check (player_attack dt w5))))"
    by (rule frame_eval [OF t_def [symmetric] st el assms(2) [symmetric] assms(4) [unfolded t_def [symmetric]] f])
  have h2: "pl_hp (w_player w2) = pl_hp (w_player w)"
    using spawn_due_player(1) [OF assms(4)] pt by (simp add: entered_keeps t_def [symmetric])
  have h3: "pl_hp (w_player w3) = pl_hp (w_player w2) - 12 * dt"
    unfolding w3_def update_mobs_hp by (simp add: assms(5))
  have s3: "scene w3 = scene w2"
    unfolding w3_def by (rule scene_core) (rule update_mobs_core)
  have "\<forall>p\<in>set (w_projectile_list w3). \<not> strikes w3 dt p"
    using assms(6) strikes_scene [OF s3] by (simp add: w3_def)
  then have h4: "pl_hp (w_player w4) = pl_hp (w_player w3)"
    unfolding w4_def by (rule update_projectiles_hp)
  have s4: "scene w4 = scene w2"
    using s3 scene_core [OF update_projectiles_core, of dt "[]" "w_projectile_list w3" w3]
    by (simp add: w4_def)
  have l4: "w_lava_pools w4 = w_lava_pools w3"
  proof -
    have "w_lava_pools (update_projectiles dt kept ps v) = w_lava_pools v" for kept ps v
      by (induction ps arbitrary: kept v) (simp_all add: Let_def hurt_player_def split: option.splits)
    then show ?thesis by (simp add: w4_def)
  qed
  have "\<forall>l\<in>set (w_lava_pools w4). \<not> burns w4 dt l"
    using assms(7) burns_scene [OF s4] by (simp add: l4 w3_def)
  then have h5: "pl_hp (w_player w5) = pl_hp (w_player w4)"
    unfolding w5_def by (rule update_lava_pools_hp)
  show ?thesis
    by (simp add: fr draw_keeps checks_keep player_attack_hp h5 h4 h3 h2)
qed

lemma update_brawler:
  "update_mob half 0 (1 / 50) brawler brawl_arena
     = (brawler\<lparr>mob_cooldown := 49 / 50, mob_x := 1219\<rparr>, hurt_player (6 / 25) brawl_arena)"
  by (simp add: update_mob_def update_melee_def brawler_def brawl_arena_def start_world_def mage_def
      Let_def toward_def sample_obstacles_def rect_defs distance_def hypot_le_iff config_defs)

theorem melee_contact_damage_witness:
  "w_state brawl_world = ''playing''
   \<and> spawn_due half 0 (entered (in_keys idle_input) (1 / 50) (ticked idle_input brawl_world)) = Some brawl_arena
   \<and> w_mobs brawl_arena = [brawler] \<and> mob_type brawler = ''melee''
   \<and> touches brawl_arena (1 / 50) brawler
   \<and> length (filter (touches brawl_arena (1 / 50)) (w_mobs brawl_arena)) = 1
   \<and> w_projectile_list (update_mobs half 0 (1 / 50) [] (w_mobs brawl_arena) brawl_arena) = []
   \<and> w_lava_pools (update_mobs half 0 (1 / 50) [] (w_mobs brawl_arena) brawl_arena) = []
   \<and> pl_hp (w_player brawl_world) = 100
   \<and> (\<exists>w'. frame half idle_input brawl_world = Some w' \<and> pl_hp (w_player w') = 100 - 12 * (1 / 50))"
proof -
  have s: "w_state brawl_world = ''playing''" by (simp add: brawl_world_def start_world_def)
  have e: "entered (in_keys idle_input) (1 / 50) (ticked idle_input brawl_world) = brawl_arena"
    by (simp add: entered_def ticked_def idle_input_def brawl_world_def brawl_arena_def update_camera_def
        start_world_def mage_def clamp_def config_defs)
  have d: "spawn_due half 0 (entered (in_keys idle_input) (1 / 50) (ticked idle_input brawl_world)) = Some brawl_arena"
    unfolding e by (rule spawn_due_idle) (simp add: brawl_arena_def spawn_interval_def BASE_SPAWN_def)
  have m: "w_mobs brawl_arena = [brawler]" by (simp add: brawl_arena_def)
  have t: "touches brawl_arena (1 / 50) brawler"
  proof -
    have "update_melee (1 / 50) (brawler\<lparr>mob_cooldown := max 0 (mob_cooldown brawler - 1 / 50)\<rparr>) brawl_arena
        = (brawler\<lparr>mob_cooldown := 49 / 50, mob_x := 1219\<rparr>, hurt_player (6 / 25) brawl_arena)"
      using update_brawler by (simp add: update_mob_def Let_def brawler_def)
    then show ?thesis
      by (simp add: touches_def contact_def)
         (simp add: brawler_def brawl_arena_def start_world_def mage_def distance_def config_defs)
  qed
  have u: "update_mobs half 0 (1 / 50) [] (w_mobs brawl_arena) brawl_arena
      = (hurt_player (6 / 25) brawl_arena)\<lparr>w_mobs := [brawler\<lparr>mob_cooldown := 49 / 50, mob_x := 1219\<rparr>]\<rparr>"
    by (simp add: m update_brawler) (simp add: brawler_def)
  have p: "w_projectile_list (update_mobs half 0 (1 / 50) [] (w_mobs brawl_arena) brawl_arena) = []"
    and l: "w_lava_pools (update_mobs half 0 (1 / 50) [] (w_mobs brawl_arena) brawl_arena) = []"
    unfolding u by (simp_all add: hurt_player_def brawl_arena_def start_world_def)
  have h: "pl_hp (w_player brawl_world) = 100" by (simp add: brawl_world_def start_world_def mage_def)
  have dt: "(1 / 50 :: real) = real (in_tick_ms idle_input) / 1000" by (simp add: idle_input_def)
  have mi: "(0 :: int) = \<lfloor>(w_elapsed brawl_world + 1 / 50) / 60\<rfloor>"
    by (simp add: brawl_world_def start_world_def)
  have c: "length (filter (touches brawl_arena (1 / 50)) (w_mobs brawl_arena)) = 1"
    using t by (simp add: m)
  have "\<exists>w'. frame half idle_input brawl_world = Some w'
      \<and> pl_hp (w_player w') = pl_hp (w_player brawl_world) - 12 * (1 / 50)"
    by (rule melee_contact_damage [OF s dt mi d c]) (simp_all add: p l)
  then show ?thesis
    using s d m t c p l h by (simp add: brawler_def)
qed

section \<open>Runs from champion selection\<close>

lemma sniper_unit: "unit_stream sniper_stream"
  by (simp add: unit_stream_def sniper_stream_def)

lemma lull_frame: "frame g lull_input start_world = Some lull_world"
proof -
  have t: "ticked lull_input start_world = start_world\<lparr>w_elapsed := 7 / 10\<rparr>"
    by (simp add: ticked_def lull_input_def start_world_def)
  have f: "fought g 0 (7 / 10) (entered (in_keys lull_input) (7 / 10) (start_world\<lparr>w_elapsed := 7 / 10\<rparr>))
      = lull_world"
    by (simp add: fought_def entered_def lull_input_def update_camera_def start_world_def mage_def
        player_attack_def clamp_def config_defs lull_world_def)
  have "frame g lull_input start_world = Some (draw (win_death_check (level_up_check lull_world)))"
  proof (rule frame_idle_eval [OF t _ _ _ _ f])
    show "w_state (start_world\<lparr>w_elapsed := 7 / 10\<rparr>) = ''playing''" by (simp add: start_world_def)
    show "\<lfloor>w_elapsed (start_world\<lparr>w_elapsed := 7 / 10\<rparr>) / 60\<rfloor> = 0" by simp
    show "real (in_tick_ms lull_input) / 1000 = 7 / 10" by (simp add: lull_input_def)
    show "w_spawn_acc (start_world\<lparr>w_elapsed := 7 / 10\<rparr>) + 7 / 10 < spawn_interval 0"
      by (simp add: start_world_def spawn_interval_def BASE_SPAWN_def)
  qed
  then show ?thesis
    by (simp add: lull_world_def start_world_def mage_def level_up_check_def win_death_check_def draw_def
         update_camera_def config_defs clamp_def)
qed

lemma sniper_spawn:
  "spawn_mob sniper_stream 0 0 1200 900 sample_obstacles =
     Some \<lparr>sp_mob = sniper, sp_rng = 9,
           sp_place = \<lparr>place_x = 1675, place_y = 900, place_rng = 4, place_exit = All_good,
                        place_tries = 0, place_iters = 1\<rparr>\<rparr>"
proof -
  have c: "candidate sniper_stream 0 = (1675, 900)"
    by (simp add: candidate_def sniper_stream_def Let_def config_defs randint_def uniform_def clamp_def)
  have n: "\<not> too_near 1200 900 (1675, 900)"
    by (simp add: too_near_def distance_def)
  have i: "\<not> inside_obs sample_obstacles 1675 900"
    by (simp add: sample_obstacles_def collidepoint_def inflate_def Rect_def config_defs)
  have s: "spawn_search sniper_stream 0 1200 900 sample_obstacles 0 0
     = Some \<lparr>place_x = 1675, place_y = 900, place_rng = 4, place_exit = All_good,
             place_tries = 0, place_iters = 1\<rparr>"
    by (subst spawn_search_unfold) (simp add: c n i)
  show ?thesis
    by (simp add: spawn_mob_def s Let_def)
       (simp add: sniper_stream_def choices_enemy_def ENEMY_TYPES_def uniform_def randint_def sniper_def)
qed

lemma sniper_frame: "frame sniper_stream second_input lull_world = Some sniped_world"
proof -
  define e where "e = lull_world\<lparr>w_elapsed := 17 / 10, w_spawn_acc := 17 / 10\<rparr>"
  define w2 where "w2 = e\<lparr>w_spawn_acc := 0, w_mobs := [sniper], w_rng := 9\<rparr>"
  have t: "ticked second_input lull_world = lull_world\<lparr>w_elapsed := 17 / 10\<rparr>"
    by (simp add: ticked_def second_input_def lull_world_def)
  have en: "entered (in_keys second_input) 1 (lull_world\<lparr>w_elapsed := 17 / 10\<rparr>) = e"
    by (simp add: entered_def second_input_def lull_world_def update_camera_def start_world_def mage_def
        clamp_def config_defs e_def)
  have i0: "spawn_interval 0 = 17 / 10" by (simp add: spawn_interval_def BASE_SPAWN_def)
  have sm: "spawn_mob sniper_stream (w_rng e) 0 (pl_x (w_player e)) (pl_y (w_player e)) (w_obstacles e)
      = Some \<lparr>sp_mob = sniper, sp_rng = 9,
           sp_place = \<lparr>place_x = 1675, place_y = 900, place_rng = 4, place_exit = All_good,
                        place_tries = 0, place_iters = 1\<rparr>\<rparr>"
    using sniper_spawn by (simp add: e_def lull_world_def start_world_def mage_def)
  have "spawn_due sniper_stream 0 e = spawn_due sniper_stream 0 w2"
    by (subst spawn_due.simps) (simp add: sm i0, simp add: e_def w2_def lull_world_def start_world_def)
  also have "\<dots> = Some w2"
    by (rule spawn_due_idle) (simp add: i0 w2_def)
  finally have sd: "spawn_due sniper_stream 0 (entered (in_keys second_input) 1 (lull_world\<lparr>w_elapsed := 17 / 10\<rparr>)) = Some w2"
    by (simp add: en)
  have um: "update_mob sniper_stream 0 1 sniper w2
      = (sniper\<lparr>mob_cooldown := 8 / 5, mob_x := 1620\<rparr>,
         w2\<lparr>w_projectile_list := [Projectile 1620 900 (- 420) 0 420 18 ''mob''], w_rng := 10\<rparr>)"
    by (simp add: update_mob_def update_shooter_def sniper_def w2_def e_def lull_world_def start_world_def
        mage_def Let_def toward_def sample_obstacles_def rect_defs distance_def hypot_le_iff config_defs
        sniper_stream_def uniform_def)
  have mw: "w_mobs w2 = [sniper]" by (simp add: w2_def)
  have um2: "update_mobs sniper_stream 0 1 [] (w_mobs w2) w2
      = w2\<lparr>w_projectile_list := [Projectile 1620 900 (- 420) 0 420 18 ''mob''], w_rng := 10,
           w_mobs := [sniper\<lparr>mob_cooldown := 8 / 5, mob_x := 1620\<rparr>]\<rparr>"
    unfolding mw by (simp add: um) (simp add: sniper_def)
  have f: "fought sniper_stream 0 1 w2 = sniped_world"
    unfolding fought_def Let_def um2
    by (simp add: w2_def sniper_def e_def lull_world_def start_world_def mage_def Projectile_def
         sample_obstacles_def rect_defs distance_def hypot_le_iff config_defs hurt_player_def
         player_attack_def sniped_world_def Let_def)
  have "frame sniper_stream second_input lull_world = Some (draw (win_death_check (level_up_check sniped_world)))"
  proof (rule frame_eval [OF t _ _ _ sd f])
    show "w_state (lull_world\<lparr>w_elapsed := 17 / 10\<rparr>) = ''playing''"
      by (simp add: lull_world_def start_world_def)
    show "\<lfloor>w_elapsed (lull_world\<lparr>w_elapsed := 17 / 10\<rparr>) / 60\<rfloor> = 0" by simp
    show "real (in_tick_ms second_input) / 1000 = 1" by (simp add: second_input_def)
  qed
  then show ?thesis
    by (simp add: sniped_world_def start_world_def mage_def level_up_check_def win_death_check_def draw_def
         update_camera_def config_defs clamp_def)
qed

lemma half_spawn_at:
  "spawn_mob half i minute 1200 900 obstacles =
     Some \<lparr>sp_mob = raider minute, sp_rng = i + 1211,
           sp_place = \<lparr>place_x = 1200, place_y = 900, place_rng = i + 1206,
             place_exit = Fallback_near_player, place_tries = 301, place_iters = 301\<rparr>\<rparr>"
  by (simp add: spawn_mob_def half_search Let_def)
     (simp add: half_def choices_enemy_def ENEMY_TYPES_def uniform_def randint_def raider_def)

lemma spawn_due_half:
  assumes "pl_x (w_player w) = 1200" "pl_y (w_player w) = 900"
    and "w_spawn_acc w = real k * spawn_interval minute"
  shows "spawn_due half minute w =
     Some (w\<lparr>w_spawn_acc := 0, w_mobs := w_mobs w @ replicate k (raider minute), w_rng := w_rng w + 1211 * k\<rparr>)"
  using assms
proof (induction k arbitrary: w)
  case 0
  have p: "0 < spawn_interval minute" using spawn_interval_pos [of minute] by simp
  have "spawn_due half minute w = Some w"
    by (rule spawn_due_idle) (use 0 p in simp)
  moreover have "w = w\<lparr>w_spawn_acc := 0, w_mobs := w_mobs w @ replicate 0 (raider minute), w_rng := w_rng w + 1211 * 0\<rparr>"
    using 0 by simp
  ultimately show ?case by simp
next
  case (Suc k)
  have p: "0 < spawn_interval minute" using spawn_interval_pos [of minute] by simp
  define w1 where "w1 = w\<lparr>w_spawn_acc := w_spawn_acc w - spawn_interval minute,
      w_mobs := w_mobs w @ [raider minute], w_rng := w_rng w + 1211\<rparr>"
  have ge: "spawn_interval minute \<le> w_spawn_acc w"
    using Suc.prems(3) p by (simp add: algebra_simps)
  have "spawn_due half minute w = spawn_due half minute w1"
    by (subst spawn_due.simps) (simp add: ge Suc.prems(1,2) half_spawn_at w1_def)
  also have "\<dots> = Some (w1\<lparr>w_spawn_acc := 0, w_mobs := w_mobs w1 @ replicate k (raider minute), w_rng := w_rng w1 + 1211 * k\<rparr>)"
    by (rule Suc.IH) (use Suc.prems in \<open>simp_all add: w1_def algebra_simps\<close>)
  also have "\<dots> = Some (w\<lparr>w_spawn_acc := 0, w_mobs := w_mobs w @ replicate (Suc k) (raider minute), w_rng := w_rng w + 1211 * Suc k\<rparr>)"
    by (simp add: w1_def replicate_append_same)
  finally show ?case .
qed

lemma touches_raider:
  assumes "pl_x (w_player w) = 1200" "pl_y (w_player w) = 900" "w_obstacles w = sample_obstacles"
  shows "touches w dt (raider minute)"
  unfolding touches_def contact_def fst_update_melee
  by (simp add: assms raider_def toward_def Let_def sample_obstacles_def rect_defs distance_def
      hypot_le_iff config_defs)

lemma update_mobs_melee:
  assumes "\<forall>m\<in>set ms. mob_type m = ''melee''"
  shows "w_projectile_list (update_mobs g minute dt kept ms w) = w_projectile_list w
       \<and> w_lava_pools (update_mobs g minute dt kept ms w) = w_lava_pools w"
  using assms
proof (induction ms arbitrary: kept w)
  case Nil
  show ?case by simp
next
  case (Cons m ms)
  obtain m' w' where u: "update_mob g minute dt m w = (m', w')" by fastforce
  have mel: "mob_type m = ''melee''" and rest: "\<forall>m\<in>set ms. mob_type m = ''melee''"
    using Cons.prems by simp_all
  have "update_melee dt (m\<lparr>mob_cooldown := max 0 (mob_cooldown m - dt)\<rparr>) w = (m', w')"
    using u mel by (simp add: update_mob_def Let_def)
  then have "w' = (if contact w m' then hurt_player (12 * dt) w else w)"
    using update_melee_pair [of dt "m\<lparr>mob_cooldown := max 0 (mob_cooldown m - dt)\<rparr>" w] by simp
  then have k: "w_projectile_list w' = w_projectile_list w" "w_lava_pools w' = w_lava_pools w"
    by (simp_all add: hurt_player_def)
  show ?case
    using Cons.IH [OF rest] k by (simp add: u)
qed

lemma age_frame:
  "\<exists>v. frame half age_input start_world = Some (draw (win_death_check (level_up_check v)))
       \<and> pl_hp (w_player v) = 100 - 12 * 600 * 1200 \<and> w_elapsed v = 600"
proof -
  define e where "e = start_world\<lparr>w_elapsed := 600, w_spawn_acc := 600, w_cam_x := 800, w_cam_y := 600\<rparr>"
  define w2 where "w2 = e\<lparr>w_spawn_acc := 0, w_mobs := w_mobs e @ replicate 1200 (raider 10), w_rng := w_rng e + 1211 * 1200\<rparr>"
  define w3 where "w3 = update_mobs half 10 600 [] (w_mobs w2) w2"
  define w4 where "w4 = update_projectiles 600 [] (w_projectile_list w3) w3"
  define w5 where "w5 = update_lava_pools 600 [] (w_lava_pools w4) w4"
  have t: "ticked age_input start_world = start_world\<lparr>w_elapsed := 600\<rparr>"
    by (simp add: ticked_def age_input_def start_world_def)
  have en: "entered (in_keys age_input) 600 (start_world\<lparr>w_elapsed := 600\<rparr>) = e"
    by (simp add: entered_def age_input_def update_camera_def start_world_def mage_def
        clamp_def config_defs e_def)
  have i10: "spawn_interval 10 = 1 / 2" by (simp add: spawn_interval_def BASE_SPAWN_def)
  have sd: "spawn_due half 10 (entered (in_keys age_input) 600 (start_world\<lparr>w_elapsed := 600\<rparr>)) = Some w2"
    unfolding en w2_def
    by (rule spawn_due_half) (simp_all add: e_def start_world_def mage_def i10)
  have mobs2: "w_mobs w2 = replicate 1200 (raider 10)"
    by (simp add: w2_def e_def start_world_def)
  have tr: "touches w2 600 (raider 10)"
    by (rule touches_raider) (simp_all add: w2_def e_def start_world_def mage_def)
  have "filter (touches w2 600) (replicate 1200 (raider 10)) = replicate 1200 (raider 10)"
    using tr by simp
  then have h3: "pl_hp (w_player w3) = 100 - 12 * 600 * 1200"
    unfolding w3_def update_mobs_hp mobs2
    by (simp add: w2_def e_def start_world_def mage_def)
  have mel: "\<forall>m\<in>set (w_mobs w2). mob_type m = ''melee''"
    by (simp add: mobs2 raider_def)
  have l3: "w_projectile_list w3 = []" "w_lava_pools w3 = []"
    using update_mobs_melee [OF mel, of half 10 600 "[]" w2]
    by (simp_all add: w3_def w2_def e_def start_world_def)
  have w4: "w4 = w3\<lparr>w_projectile_list := []\<rparr>" by (simp add: w4_def l3)
  have w5: "w5 = w4\<lparr>w_lava_pools := []\<rparr>" by (simp add: w5_def w4 l3)
  have f: "fought half 10 600 w2 = player_attack 600 w5"
    by (simp add: fought_def Let_def w3_def w4_def w5_def)
  have fr: "frame half age_input start_world = Some (draw (win_death_check (level_up_check (player_attack 600 w5))))"
  proof (rule frame_eval [OF t _ _ _ sd f])
    show "w_state (start_world\<lparr>w_elapsed := 600\<rparr>) = ''playing''" by (simp add: start_world_def)
    show "\<lfloor>w_elapsed (start_world\<lparr>w_elapsed := 600\<rparr>) / 60\<rfloor> = 10" by simp
    show "real (in_tick_ms age_input) / 1000 = 600" by (simp add: age_input_def)
  qed
  have c: "core (player_attack 600 w5) = core w2"
    by (simp add: player_attack_core w5 w4 w3_def update_mobs_core)
  have el: "w_elapsed (player_attack 600 w5) = 600"
    using core_fields(2) [OF c] by (simp add: w2_def e_def)
  have hp: "pl_hp (w_player (player_attack 600 w5)) = 100 - 12 * 600 * 1200"
    by (simp add: player_attack_hp w5 w4 h3)
  show ?thesis using fr el hp by blast
qed

text \<open>
  Claim C5 fails as stated. From the world right after champion selection, a single frame
  of 600 seconds (a stalled process) reaches the level duration; the mobs spawned in that
  frame stand on the player when every sample is rejected and the fallback draws the
  centre, and their contact damage brings the hit points below 0. The frame ends in state
  \<open>dead\<close>, not \<open>win\<close>.
\<close>

theorem win_transition_counterexample:
  "w_state (choose_champion ''mage'' (prepare_world sample_obstacles 0)) = ''playing''
   \<and> map_option w_elapsed (frame half age_input (choose_champion ''mage'' (prepare_world sample_obstacles 0)))
       = Some (real_of_int LEVEL_DURATION_SECONDS)
   \<and> map_option w_state (frame half age_input (choose_champion ''mage'' (prepare_world sample_obstacles 0)))
       = Some ''dead''
   \<and> ''dead'' \<noteq> ''win''"
proof -
  obtain v where v: "frame half age_input start_world = Some (draw (win_death_check (level_up_check v)))"
    "pl_hp (w_player v) = 100 - 12 * 600 * 1200" "w_elapsed v = 600"
    using age_frame by blast
  have "w_state (draw (win_death_check (level_up_check v))) = ''dead''"
    using v(2) by (simp add: draw_keeps win_death_check_def Let_def checks_keep)
  then show ?thesis
    using v by (simp add: start_world_chosen [symmetric] draw_keeps checks_keep config_defs)
       (simp add: start_world_def)
qed

lemma update_raider:
  assumes "pl_x (w_player w) = 1200" "pl_y (w_player w) = 900" "w_obstacles w = sample_obstacles"
  shows "update_mob g minute dt ((raider k)\<lparr>mob_cooldown := c, mob_hp := h\<rparr>) w
     = ((raider k)\<lparr>mob_cooldown := max 0 (c - dt), mob_hp := h\<rparr>, hurt_player (12 * dt) w)"
  using assms
  by (simp add: update_mob_def update_melee_def raider_def Let_def toward_def sample_obstacles_def
      rect_defs distance_def hypot_le_iff config_defs)

lemma minute_0: "0 \<le> e \<Longrightarrow> e < 60 \<Longrightarrow> \<lfloor>e / 60\<rfloor> = (0 :: int)" for e :: real
  by (simp add: floor_eq_iff)

lemma knight_first:
  "frame half wait_input (choose_champion ''knight'' (prepare_world sample_obstacles 0))
     = Some (waiting 100 0 (- 8 / 5) (8 / 5) 0)"
proof -
  define s where "s = choose_champion ''knight'' (prepare_world sample_obstacles 0)"
  have s: "s = \<lparr>w_player = knight, w_projectile_list = [], w_lava_pools = [], w_mobs = [],
      w_obstacles = sample_obstacles, w_elapsed = 0, w_spawn_acc = 0, w_state = ''playing'',
      w_cam_x = 0, w_cam_y = 0, w_running = True, w_rng = 0\<rparr>"
    by (simp add: s_def choose_champion_def prepare_world_def Player_def knight_def Let_def config_defs)
  have t: "ticked wait_input s = s\<lparr>w_elapsed := 8 / 5\<rparr>"
    by (simp add: ticked_def wait_input_def s)
  have f: "fought half 0 (8 / 5) (entered (in_keys wait_input) (8 / 5) (s\<lparr>w_elapsed := 8 / 5\<rparr>))
      = waiting 100 0 (- 8 / 5) (8 / 5) 0"
    by (simp add: fought_def entered_def wait_input_def update_camera_def s knight_def
        player_attack_def clamp_def config_defs waiting_def)
  have "frame half wait_input s = Some (draw (win_death_check (level_up_check (waiting 100 0 (- 8 / 5) (8 / 5) 0))))"
  proof (rule frame_idle_eval [OF t _ _ _ _ f])
    show "w_state (s\<lparr>w_elapsed := 8 / 5\<rparr>) = ''playing''" by (simp add: s)
    show "\<lfloor>w_elapsed (s\<lparr>w_elapsed := 8 / 5\<rparr>) / 60\<rfloor> = 0" by simp
    show "real (in_tick_ms wait_input) / 1000 = 8 / 5" by (simp add: wait_input_def)
    show "w_spawn_acc (s\<lparr>w_elapsed := 8 / 5\<rparr>) + 8 / 5 < spawn_interval 0"
      by (simp add: s spawn_interval_def BASE_SPAWN_def)
  qed
  then show ?thesis
    unfolding s_def [symmetric]
    by (simp add: waiting_def knight_def level_up_check_def win_death_check_def draw_def
         update_camera_def config_defs clamp_def)
qed

lemma knight_jab:
  assumes "tm \<le> 1 / 10" "6 / 5 < hp" "xp < 5" "0 \<le> el" "el + 1 / 10 < 60"
  shows "frame half jab_input (waiting hp xp tm el r) = Some (struck (hp - 6 / 5) xp (el + 1 / 10) (r + 1211))"
proof -
  define e where "e = (waiting hp xp tm el r)\<lparr>w_elapsed := el + 1 / 10, w_spawn_acc := 17 / 10\<rparr>"
  define w2 where "w2 = e\<lparr>w_spawn_acc := 0, w_mobs := w_mobs e @ replicate 1 (raider 0), w_rng := w_rng e + 1211 * 1\<rparr>"
  have t: "ticked jab_input (waiting hp xp tm el r) = (waiting hp xp tm el r)\<lparr>w_elapsed := el + 1 / 10\<rparr>"
    by (simp add: ticked_def jab_input_def waiting_def)
  have en: "entered (in_keys jab_input) (1 / 10) ((waiting hp xp tm el r)\<lparr>w_elapsed := el + 1 / 10\<rparr>) = e"
    by (simp add: entered_def jab_input_def waiting_def update_camera_def knight_def
        clamp_def config_defs e_def)
  have i0: "spawn_interval 0 = 17 / 10" by (simp add: spawn_interval_def BASE_SPAWN_def)
  have sd: "spawn_due half 0 (entered (in_keys jab_input) (1 / 10) ((waiting hp xp tm el r)\<lparr>w_elapsed := el + 1 / 10\<rparr>)) = Some w2"
    unfolding en w2_def
    by (rule spawn_due_half) (simp_all add: e_def waiting_def knight_def i0)
  have mw: "w_mobs w2 = [(raider 0)\<lparr>mob_cooldown := 3 / 2, mob_hp := 23\<rparr>]"
    by (simp add: w2_def e_def waiting_def raider_def)
  have um: "update_mobs half 0 (1 / 10) [] (w_mobs w2) w2
      = (hurt_player (12 * (1 / 10)) w2)\<lparr>w_mobs := [(raider 0)\<lparr>mob_cooldown := 7 / 5, mob_hp := 23\<rparr>]\<rparr>"
    unfolding mw
    using update_raider [where w = w2 and g = half and minute = 0 and dt = "1 / 10" and k = 0 and c = "3 / 2" and h = 23]
    by (simp add: w2_def e_def waiting_def knight_def)
  have f: "fought half 0 (1 / 10) w2 = struck (hp - 6 / 5) xp (el + 1 / 10) (r + 1211)"
    unfolding fought_def Let_def um
    using assms(1)
    by (simp add: hurt_player_def w2_def e_def waiting_def knight_def player_attack_def raider_def
        distance_def struck_def Let_def config_defs)
  have "frame half jab_input (waiting hp xp tm el r)
      = Some (draw (win_death_check (level_up_check (struck (hp - 6 / 5) xp (el + 1 / 10) (r + 1211)))))"
  proof (rule frame_eval [OF t _ _ _ sd f])
    show "w_state ((waiting hp xp tm el r)\<lparr>w_elapsed := el + 1 / 10\<rparr>) = ''playing''"
      by (simp add: waiting_def)
    show "\<lfloor>w_elapsed ((waiting hp xp tm el r)\<lparr>w_elapsed := el + 1 / 10\<rparr>) / 60\<rfloor> = 0"
      using assms(4,5) by (simp add: minute_0)
    show "real (in_tick_ms jab_input) / 1000 = 1 / 10" by (simp add: jab_input_def)
  qed
  then show ?thesis
    using assms
    by (simp add: struck_def knight_def level_up_check_def win_death_check_def draw_def
         update_camera_def config_defs clamp_def)
qed

lemma struck_fought:
  "fought half 0 (8 / 5) (entered (in_keys wait_input) (8 / 5) ((struck hp xp el r)\<lparr>w_elapsed := el + 8 / 5\<rparr>))
     = waiting (hp - 96 / 5) (xp + 1) (- 11 / 10) (el + 8 / 5) r"
proof -
  define e where "e = (struck hp xp el r)\<lparr>w_elapsed := el + 8 / 5, w_spawn_acc := 8 / 5\<rparr>"
  have en: "entered (in_keys wait_input) (8 / 5) ((struck hp xp el r)\<lparr>w_elapsed := el + 8 / 5\<rparr>) = e"
    by (simp add: entered_def wait_input_def struck_def update_camera_def knight_def
        clamp_def config_defs e_def)
  have mw: "w_mobs e = [(raider 0)\<lparr>mob_cooldown := 7 / 5, mob_hp := - 13\<rparr>]"
    by (simp add: e_def struck_def)
  have um: "update_mobs half 0 (8 / 5) [] (w_mobs e) e
      = (hurt_player (12 * (8 / 5)) e)\<lparr>w_player := (w_player (hurt_player (12 * (8 / 5)) e))\<lparr>pl_xp := xp + 1\<rparr>,
           w_mobs := []\<rparr>"
    unfolding mw
    using update_raider [where w = e and g = half and minute = 0 and dt = "8 / 5" and k = 0 and c = "7 / 5" and h = "- 13"]
    by (simp add: e_def struck_def knight_def) (simp add: hurt_player_def)
  show ?thesis
    unfolding en fought_def Let_def um
    by (simp add: hurt_player_def e_def struck_def knight_def player_attack_def waiting_def)
qed

lemma knight_rest:
  assumes "96 / 5 < hp" "xp + 1 < 5" "0 \<le> el" "el + 8 / 5 < 60"
  shows "frame half wait_input (struck hp xp el r) = Some (waiting (hp - 96 / 5) (xp + 1) (- 11 / 10) (el + 8 / 5) r)"
proof -
  have t: "ticked wait_input (struck hp xp el r) = (struck hp xp el r)\<lparr>w_elapsed := el + 8 / 5\<rparr>"
    by (simp add: ticked_def wait_input_def struck_def)
  have "frame half wait_input (struck hp xp el r)
      = Some (draw (win_death_check (level_up_check (waiting (hp - 96 / 5) (xp + 1) (- 11 / 10) (el + 8 / 5) r))))"
  proof (rule frame_idle_eval [OF t _ _ _ _ struck_fought])
    show "w_state ((struck hp xp el r)\<lparr>w_elapsed := el + 8 / 5\<rparr>) = ''playing''"
      by (simp add: struck_def)
    show "\<lfloor>w_elapsed ((struck hp xp el r)\<lparr>w_elapsed := el + 8 / 5\<rparr>) / 60\<rfloor> = 0"
      using assms(3,4) by (simp add: minute_0)
    show "real (in_tick_ms wait_input) / 1000 = 8 / 5" by (simp add: wait_input_def)
    show "w_spawn_acc ((struck hp xp el r)\<lparr>w_elapsed := el + 8 / 5\<rparr>) + 8 / 5 < spawn_interval 0"
      by (simp add: struck_def spawn_interval_def BASE_SPAWN_def)
  qed
  then show ?thesis
    using assms
    by (simp add: waiting_def knight_def level_up_check_def win_death_check_def draw_def
         update_camera_def config_defs clamp_def)
qed

lemma knight_last:
  "frame half wait_input (struck (86 / 5) 4 (17 / 2) 6055) = Some fallen"
proof -
  have t: "ticked wait_input (struck (86 / 5) 4 (17 / 2) 6055) = (struck (86 / 5) 4 (17 / 2) 6055)\<lparr>w_elapsed := 17 / 2 + 8 / 5\<rparr>"
    by (simp add: ticked_def wait_input_def struck_def)
  have "frame half wait_input (struck (86 / 5) 4 (17 / 2) 6055)
      = Some (draw (win_death_check (level_up_check (waiting (86 / 5 - 96 / 5) (4 + 1) (- 11 / 10) (17 / 2 + 8 / 5) 6055))))"
  proof (rule frame_idle_eval [OF t _ _ _ _ struck_fought])
    show "w_state ((struck (86 / 5) 4 (17 / 2) 6055)\<lparr>w_elapsed := 17 / 2 + 8 / 5\<rparr>) = ''playing''"
      by (simp add: struck_def)
    show "\<lfloor>w_elapsed ((struck (86 / 5) 4 (17 / 2) 6055)\<lparr>w_elapsed := 17 / 2 + 8 / 5\<rparr>) / 60\<rfloor> = 0"
      by simp
    show "real (in_tick_ms wait_input) / 1000 = 8 / 5" by (simp add: wait_input_def)
    show "w_spawn_acc ((struck (86 / 5) 4 (17 / 2) 6055)\<lparr>w_elapsed := 17 / 2 + 8 / 5\<rparr>) + 8 / 5 < spawn_interval 0"
      by (simp add: struck_def spawn_interval_def BASE_SPAWN_def)
  qed
  then show ?thesis
    by (simp add: waiting_def knight_def level_up_check_def win_death_check_def draw_def
         update_camera_def config_defs clamp_def fallen_def)
qed

text \<open>
  Claim C6 fails as stated. The knight stands still from champion selection on; frames of
  1.6 s and 0.1 s alternate. In each short frame a mob falls due, every sample is rejected
  and the fallback draws the centre, so the mob stands on the knight, hurts it and is slain
  by the knight's blow; in the next long frame the slain mob hurts the knight once more
  before it is removed and counted. The fifth slain mob brings the experience to
  \<open>level * 5\<close> in the frame in which the hit points fall to \<open>-2\<close>: the level is
  incremented, and the frame ends in state \<open>dead\<close>, not \<open>levelup\<close>.
\<close>

theorem level_up_state_counterexample:
  "run half [wait_input, jab_input, wait_input, jab_input, wait_input, jab_input, wait_input,
             jab_input, wait_input, jab_input]
      (choose_champion ''knight'' (prepare_world sample_obstacles 0))
     = Some (struck (86 / 5) 4 (17 / 2) 6055)
   \<and> w_state (struck (86 / 5) 4 (17 / 2) 6055) = ''playing''
   \<and> pl_level (w_player (struck (86 / 5) 4 (17 / 2) 6055)) = 1
   \<and> frame half wait_input (struck (86 / 5) 4 (17 / 2) 6055) = Some fallen
   \<and> pl_level (w_player (struck (86 / 5) 4 (17 / 2) 6055)) * 5 \<le> pl_xp (w_player fallen)
   \<and> pl_level (w_player fallen) = 2
   \<and> w_state fallen = ''dead'' \<and> w_state fallen \<noteq> ''levelup''"
proof -
  have r: "w_running (choose_champion ''knight'' (prepare_world sample_obstacles 0))"
    "\<And>hp xp tm el r. w_running (waiting hp xp tm el r)"
    "\<And>hp xp el r. w_running (struck hp xp el r)"
    by (simp_all add: choose_champion_def prepare_world_def waiting_def struck_def Let_def)
  have "run half [wait_input, jab_input, wait_input, jab_input, wait_input, jab_input, wait_input,
             jab_input, wait_input, jab_input]
      (choose_champion ''knight'' (prepare_world sample_obstacles 0))
     = Some (struck (86 / 5) 4 (17 / 2) 6055)"
    by (simp add: r knight_first knight_jab knight_rest)
  then show ?thesis
    by (simp add: knight_last) (simp add: struck_def fallen_def knight_def)
qed

text \<open>
  Claim C9 fails as stated. After a first frame of 0.7 s without input from champion
  selection, the mage stands at the world centre with 100 hit points and no mob, projectile
  or lava pool. In the next second without input a mob falls due; its first sample is
  accepted 475 pixels east of the player, it is a shooter, and its projectile reaches the
  player within that second: the hit points fall to 82.
\<close>

theorem zero_input_second_counterexample:
  "unit_stream sniper_stream
   \<and> frame sniper_stream lull_input (choose_champion ''mage'' (prepare_world sample_obstacles 0))
       = Some lull_world
   \<and> quiet lull_world \<and> pl_hp (w_player lull_world) = 100
   \<and> pl_x (w_player lull_world) = real_of_int (WORLD_W div 2)
   \<and> pl_y (w_player lull_world) = real_of_int (WORLD_H div 2)
   \<and> in_events second_input = [] \<and> no_direction (in_keys second_input)
   \<and> seconds [second_input] = 1
   \<and> w_elapsed lull_world + 1 < real_of_int LEVEL_DURATION_SECONDS
   \<and> run sniper_stream [second_input] lull_world = Some sniped_world
   \<and> w_state sniped_world = ''playing''
   \<and> pl_hp (w_player sniped_world) = 82 \<and> (82 :: real) \<noteq> 100"
proof -
  have "frame sniper_stream lull_input (choose_champion ''mage'' (prepare_world sample_obstacles 0))
       = Some lull_world"
    using lull_frame [of sniper_stream] by (simp add: start_world_chosen)
  moreover have "run sniper_stream [second_input] lull_world = Some sniped_world"
    by (simp add: sniper_frame) (simp add: lull_world_def start_world_def)
  ultimately show ?thesis
    by (simp add: sniper_unit)
       (simp add: quiet_def lull_world_def sniped_world_def start_world_def mage_def config_defs
          second_input_def no_direction_def no_keys_def seconds_def)
qed

section \<open>The obstacles generated\<close>

lemma marked_update: "v < length visited \<Longrightarrow> marked (visited[v := True]) = insert v (marked visited)"
  by (auto simp: marked_def nth_list_update)

lemma marked_bound: "marked visited \<subseteq> {..<length visited}"
  by (auto simp: marked_def)

lemma visit_returns:
  assumes "\<forall>v\<in>set vs. v < length visited"
  shows "\<exists>visited' new. visit vs visited stack = Some (visited', stack @ new)
     \<and> length visited' = length visited
     \<and> marked visited' = marked visited \<union> set vs
     \<and> set new = set vs - marked visited \<and> distinct new"
  using assms
proof (induction vs arbitrary: visited stack)
  case Nil
  then show ?case by simp
next
  case (Cons v vs)
  have v: "v < length visited" using Cons.prems by simp
  show ?case
  proof (cases "visited ! v")
    case True
    then have m: "v \<in> marked visited" using v by (simp add: marked_def)
    obtain visited' new where r: "visit vs visited stack = Some (visited', stack @ new)"
      "length visited' = length visited" "marked visited' = marked visited \<union> set vs"
      "set new = set vs - marked visited" "distinct new"
      using Cons.IH [of visited stack] Cons.prems by auto
    show ?thesis
      using r m v True by (intro exI [of _ visited'] exI [of _ new]) auto
  next
    case False
    then have m: "v \<notin> marked visited" by (simp add: marked_def)
    have "\<forall>x\<in>set vs. x < length (visited[v := True])" using Cons.prems by simp
    from Cons.IH [OF this, of "stack @ [v]"]
    obtain visited' new where r: "visit vs (visited[v := True]) (stack @ [v]) = Some (visited', (stack @ [v]) @ new)"
      "length visited' = length (visited[v := True])"
      "marked visited' = marked (visited[v := True]) \<union> set vs"
      "set new = set vs - marked (visited[v := True])" "distinct new"
      by auto
    show ?thesis
      using r m v False
      by (intro exI [of _ visited'] exI [of _ "v # new"]) (auto simp: marked_update)
  qed
qed

lemma flood_returns:
  assumes "length visited = length adj"
    and "\<forall>u<length adj. \<forall>v\<in>set (adj ! u). v < length adj"
    and "set stack \<subseteq> marked visited" and "distinct stack"
  shows "\<exists>cmp' visited'. flood adj stack cmp visited = Some (cmp @ cmp', visited')
     \<and> length visited' = length adj
     \<and> marked visited \<subseteq> marked visited'
     \<and> set cmp' = set stack \<union> (marked visited' - marked visited)
     \<and> distinct cmp'
     \<and> (\<forall>u\<in>set cmp'. \<forall>v. (u, v) \<in> links adj \<longrightarrow> v \<in> marked visited')
     \<and> (\<forall>x\<in>set cmp'. \<exists>s\<in>set stack. (s, x) \<in> (links adj)\<^sup>*)"
  using assms
proof (induction "2 * card ({..<length adj} - marked visited) + length stack"
    arbitrary: stack cmp visited rule: less_induct)
  case less
  show ?case
  proof (cases "stack = []")
    case True
    then show ?thesis
      using less.prems(1) by (subst flood.simps) auto
  next
    case False
    define u where "u = last stack"
    define rest where "rest = butlast stack"
    have st: "stack = rest @ [u]" using False by (simp add: u_def rest_def)
    have um: "u \<in> marked visited" using less.prems(3) st by auto
    then have ul: "u < length adj" using less.prems(1) by (simp add: marked_def)
    have vs: "\<forall>v\<in>set (adj ! u). v < length visited"
      using less.prems(1,2) ul by simp
    from visit_returns [OF vs, of rest]
    obtain visited1 new where v1: "visit (adj ! u) visited rest = Some (visited1, rest @ new)"
      "length visited1 = length visited" "marked visited1 = marked visited \<union> set (adj ! u)"
      "set new = set (adj ! u) - marked visited" "distinct new"
      by blast
    have fin: "finite ({..<length adj} - marked visited)" by simp
    have nsub: "set new \<subseteq> {..<length adj} - marked visited"
      using v1(4) vs less.prems(1) by auto
    have "{..<length adj} - marked visited1 = ({..<length adj} - marked visited) - set new"
      using v1(3,4) by auto
    then have "card ({..<length adj} - marked visited1) = card ({..<length adj} - marked visited) - length new"
      using nsub fin v1(5) by (simp add: card_Diff_subset distinct_card)
    moreover have "length new \<le> card ({..<length adj} - marked visited)"
      using card_mono [OF fin nsub] v1(5) by (simp add: distinct_card)
    moreover have "length stack = Suc (length rest)" using st by simp
    ultimately have dec: "2 * card ({..<length adj} - marked visited1) + length (rest @ new)
        < 2 * card ({..<length adj} - marked visited) + length stack"
      by simp
    have p1: "length visited1 = length adj" using v1(2) less.prems(1) by simp
    have p3: "set (rest @ new) \<subseteq> marked visited1"
      using less.prems(3) st v1(3,4) by auto
    have p4: "distinct (rest @ new)"
      using less.prems(3,4) st v1(4,5) by auto
    from less.hyps [OF dec p1 less.prems(2) p3 p4, of "cmp @ [u]"]
    obtain cmp2 visited' where r: "flood adj (rest @ new) (cmp @ [u]) visited1 = Some ((cmp @ [u]) @ cmp2, visited')"
      "length visited' = length adj" "marked visited1 \<subseteq> marked visited'"
      "set cmp2 = set (rest @ new) \<union> (marked visited' - marked visited1)"
      "distinct cmp2"
      "\<forall>a\<in>set cmp2. \<forall>v. (a, v) \<in> links adj \<longrightarrow> v \<in> marked visited'"
      "\<forall>x\<in>set cmp2. \<exists>s\<in>set (rest @ new). (s, x) \<in> (links adj)\<^sup>*"
      by blast
    have eq: "flood adj stack cmp visited = Some (cmp @ (u # cmp2), visited')"
      using False ul v1(1) r(1) by (subst flood.simps) (simp add: u_def rest_def Let_def)
    have un: "u \<notin> set cmp2"
      using r(4) um v1(3,4) less.prems(4) st by auto
    have s4: "set (u # cmp2) = set stack \<union> (marked visited' - marked visited)"
      using r(3,4) v1(3,4) st by auto
    have s6: "\<forall>a\<in>set (u # cmp2). \<forall>v. (a, v) \<in> links adj \<longrightarrow> v \<in> marked visited'"
      using r(6) r(3) v1(3) by (auto simp: links_def)
    have s7: "\<forall>x\<in>set (u # cmp2). \<exists>s\<in>set stack. (s, x) \<in> (links adj)\<^sup>*"
    proof
      fix x assume "x \<in> set (u # cmp2)"
      then consider "x = u" | "x \<in> set cmp2" by auto
      then show "\<exists>s\<in>set stack. (s, x) \<in> (links adj)\<^sup>*"
      proof cases
        case 1
        then show ?thesis using st by auto
      next
        case 2
        then obtain s where s: "s \<in> set (rest @ new)" "(s, x) \<in> (links adj)\<^sup>*"
          using r(7) by blast
        show ?thesis
        proof (cases "s \<in> set rest")
          case True
          then show ?thesis using s(2) st by auto
        next
          case False
          then have "s \<in> set (adj ! u)" using s(1) v1(4) by auto
          then have "(u, s) \<in> links adj" using ul by (simp add: links_def)
          then have "(u, x) \<in> (links adj)\<^sup>*" using s(2) by (rule converse_rtrancl_into_rtrancl)
          then show ?thesis using st by auto
        qed
      qed
    qed
    show ?thesis
      using eq r(2) r(3) v1(3) s4 r(5) un s6 s7
      by (intro exI [of _ "u # cmp2"] exI [of _ visited']) auto
  qed
qed

lemma components_from_returns:
  assumes "length visited = length adj"
    and "\<forall>u<length adj. \<forall>v\<in>set (adj ! u). v < length adj"
    and "sym (links adj)"
    and "set todo \<subseteq> {..<length adj}"
    and "\<forall>u\<in>marked visited. \<forall>v. (u, v) \<in> links adj \<longrightarrow> v \<in> marked visited"
  shows "\<exists>comps'. components_from adj todo visited comps = Some (comps @ comps')
     \<and> distinct (concat comps') \<and> set (concat comps') \<inter> marked visited = {}
     \<and> set todo \<subseteq> marked visited \<union> set (concat comps')
     \<and> set (concat comps') \<subseteq> {..<length adj}
     \<and> (\<forall>c\<in>set comps'. \<forall>u\<in>set c. set c = {x. (u, x) \<in> (links adj)\<^sup>*})"
  using assms
proof (induction todo arbitrary: visited comps)
  case Nil
  then show ?case by simp
next
  case (Cons i todo)
  have il: "i < length visited" using Cons.prems(1,4) by simp
  have todo: "set todo \<subseteq> {..<length adj}" using Cons.prems(4) by simp
  show ?case
  proof (cases "visited ! i")
    case True
    then have im: "i \<in> marked visited" using il by (simp add: marked_def)
    from Cons.IH [OF Cons.prems(1,2,3) todo Cons.prems(5), of comps]
    obtain comps' where r: "components_from adj todo visited comps = Some (comps @ comps')"
      "distinct (concat comps')" "set (concat comps') \<inter> marked visited = {}"
      "set todo \<subseteq> marked visited \<union> set (concat comps')"
      "set (concat comps') \<subseteq> {..<length adj}"
      "\<forall>c\<in>set comps'. \<forall>u\<in>set c. set c = {x. (u, x) \<in> (links adj)\<^sup>*}"
      by blast
    show ?thesis
      using r im il True by (intro exI [of _ comps']) auto
  next
    case False
    then have im: "i \<notin> marked visited" by (simp add: marked_def)
    define v0 where "v0 = visited[i := True]"
    have m0: "marked v0 = insert i (marked visited)"
      unfolding v0_def using il by (rule marked_update)
    have l0: "length v0 = length adj" using Cons.prems(1) by (simp add: v0_def)
    have "set [i] \<subseteq> marked v0" using m0 by simp
    from flood_returns [OF l0 Cons.prems(2) this, of "[]"]
    obtain cmp visited' where f: "flood adj [i] [] v0 = Some (cmp, visited')"
      "length visited' = length adj" "marked v0 \<subseteq> marked visited'"
      "set cmp = set [i] \<union> (marked visited' - marked v0)" "distinct cmp"
      "\<forall>u\<in>set cmp. \<forall>v. (u, v) \<in> links adj \<longrightarrow> v \<in> marked visited'"
      "\<forall>x\<in>set cmp. \<exists>s\<in>set [i]. (s, x) \<in> (links adj)\<^sup>*"
      by auto
    have sc: "set cmp = marked visited' - marked visited"
      using f(3,4) m0 im by auto
    have mv: "marked visited' = marked visited \<union> set cmp"
      using f(3) sc m0 by auto
    have closed: "\<forall>u\<in>set cmp. \<forall>v. (u, v) \<in> links adj \<longrightarrow> v \<in> set cmp"
    proof (intro ballI allI impI)
      fix u v assume u: "u \<in> set cmp" and e: "(u, v) \<in> links adj"
      have "v \<in> marked visited'" using f(6) u e by blast
      moreover have "v \<notin> marked visited"
      proof
        assume "v \<in> marked visited"
        moreover have "(v, u) \<in> links adj" using e Cons.prems(3) by (meson symE)
        ultimately have "u \<in> marked visited" using Cons.prems(5) by blast
        then show False using u sc by simp
      qed
      ultimately show "v \<in> set cmp" using sc by simp
    qed
    have closed_star: "(u, x) \<in> (links adj)\<^sup>* \<Longrightarrow> u \<in> set cmp \<Longrightarrow> x \<in> set cmp" for u x
      by (induction rule: rtrancl_induct) (use closed in blast)+
    have symstar: "sym ((links adj)\<^sup>*)" using Cons.prems(3) by (rule sym_rtrancl)
    have cls: "\<forall>u\<in>set cmp. set cmp = {x. (u, x) \<in> (links adj)\<^sup>*}"
    proof
      fix u assume u: "u \<in> set cmp"
      have iu: "(i, u) \<in> (links adj)\<^sup>*" using f(7) u by simp
      then have ui: "(u, i) \<in> (links adj)\<^sup>*" using symstar by (meson symE)
      show "set cmp = {x. (u, x) \<in> (links adj)\<^sup>*}"
      proof (intro set_eqI iffI)
        fix x assume "x \<in> set cmp"
        then have "(i, x) \<in> (links adj)\<^sup>*" using f(7) by simp
        then show "x \<in> {x. (u, x) \<in> (links adj)\<^sup>*}" using ui by simp
      next
        fix x assume "x \<in> {x. (u, x) \<in> (links adj)\<^sup>*}"
        then show "x \<in> set cmp" using closed_star u by simp
      qed
    qed
    have closed': "\<forall>u\<in>marked visited'. \<forall>v. (u, v) \<in> links adj \<longrightarrow> v \<in> marked visited'"
      using mv closed Cons.prems(5) by blast
    from Cons.IH [OF f(2) Cons.prems(2,3) todo closed', of "comps @ [cmp]"]
    obtain comps2 where r: "components_from adj todo visited' (comps @ [cmp]) = Some ((comps @ [cmp]) @ comps2)"
      "distinct (concat comps2)" "set (concat comps2) \<inter> marked visited' = {}"
      "set todo \<subseteq> marked visited' \<union> set (concat comps2)"
      "set (concat comps2) \<subseteq> {..<length adj}"
      "\<forall>c\<in>set comps2. \<forall>u\<in>set c. set c = {x. (u, x) \<in> (links adj)\<^sup>*}"
      by blast
    have eq: "components_from adj (i # todo) visited comps = Some (comps @ (cmp # comps2))"
      using il False f(1) r(1) by (simp add: v0_def)
    have ic: "i \<in> set cmp" using f(4) by simp
    have cb: "set cmp \<subseteq> {..<length adj}"
      using sc marked_bound [of visited'] f(2) by auto
    have dj: "set cmp \<inter> marked visited = {}" using sc by auto
    show ?thesis
      using eq r(2-6) f(5) mv ic cls cb dj
      by (intro exI [of _ "cmp # comps2"]) auto
  qed
qed

lemma connected_components_returns:
  assumes "\<forall>u<length adj. \<forall>v\<in>set (adj ! u). v < length adj" and "sym (links adj)"
  shows "\<exists>comps. connected_components adj = Some comps
     \<and> distinct (concat comps) \<and> set (concat comps) = {..<length adj}
     \<and> (\<forall>c\<in>set comps. \<forall>u\<in>set c. set c = {x. (u, x) \<in> (links adj)\<^sup>*})"
proof -
  have m: "marked (replicate (length adj) False) = {}" by (auto simp: marked_def)
  have "\<exists>comps'. components_from adj [0..<length adj] (replicate (length adj) False) [] = Some ([] @ comps')
     \<and> distinct (concat comps') \<and> set (concat comps') \<inter> marked (replicate (length adj) False) = {}
     \<and> set [0..<length adj] \<subseteq> marked (replicate (length adj) False) \<union> set (concat comps')
     \<and> set (concat comps') \<subseteq> {..<length adj}
     \<and> (\<forall>c\<in>set comps'. \<forall>u\<in>set c. set c = {x. (u, x) \<in> (links adj)\<^sup>*})"
    by (rule components_from_returns) (use assms m in auto)
  then obtain comps where c: "components_from adj [0..<length adj] (replicate (length adj) False) [] = Some comps"
    "distinct (concat comps)" "set [0..<length adj] \<subseteq> set (concat comps)"
    "set (concat comps) \<subseteq> {..<length adj}"
    "\<forall>c\<in>set comps. \<forall>u\<in>set c. set c = {x. (u, x) \<in> (links adj)\<^sup>*}"
    unfolding m by auto
  have "set (concat comps) = {..<length adj}"
  proof
    show "set (concat comps) \<subseteq> {..<length adj}" by (rule c(4))
    show "{..<length adj} \<subseteq> set (concat comps)"
    proof
      fix x assume "x \<in> {..<length adj}"
      then have "x \<in> set [0..<length adj]" by simp
      then show "x \<in> set (concat comps)" using c(3) by blast
    qed
  qed
  then show ?thesis
    using c(1,2,5) by (simp add: connected_components_def)
qed

lemma near_sym: "near a b = near b a"
proof -
  have "hypot (x - y) (u - v) = hypot (y - x) (v - u)" for x y u v :: real
    by (simp add: hypot_def algebra_simps)
  then show ?thesis by (simp add: near_def distance_def)
qed

lemma fold_join:
  fixes P :: "nat \<Rightarrow> bool" and i :: nat
  defines "f \<equiv> \<lambda>j adj. if P j then (let adj1 = adj[i := adj ! i @ [j]] in adj1[j := adj1 ! j @ [i]]) else adj"
  assumes "distinct js" and "\<forall>j\<in>set js. j \<noteq> i \<and> j < length adj" and "i < length adj"
  shows "length (fold f js adj) = length adj
     \<and> (\<forall>k<length adj. fold f js adj ! k
           = adj ! k @ (if k = i then filter P js else if k \<in> set js \<and> P k then [i] else []))"
  using assms(2-)
proof (induction js arbitrary: adj)
  case Nil
  then show ?case by simp
next
  case (Cons j js)
  have l: "length (f j adj) = length adj" by (simp add: f_def Let_def)
  have ji: "j \<noteq> i" "j < length adj" "j \<notin> set js" using Cons.prems by auto
  have e: "f j adj ! k = adj ! k @ (if P j \<and> k = i then [j] else if P j \<and> k = j then [i] else [])"
    if "k < length adj" for k
    using that ji Cons.prems(3) by (simp add: f_def Let_def nth_list_update)
  have ih: "length (fold f js (f j adj)) = length (f j adj)
     \<and> (\<forall>k<length (f j adj). fold f js (f j adj) ! k
           = f j adj ! k @ (if k = i then filter P js else if k \<in> set js \<and> P k then [i] else []))"
    by (rule Cons.IH) (use Cons.prems l in auto)
  show ?case
  proof (intro conjI allI impI)
    show "length (fold f (j # js) adj) = length adj" using ih l by simp
    fix k assume k: "k < length adj"
    have "fold f (j # js) adj ! k
        = f j adj ! k @ (if k = i then filter P js else if k \<in> set js \<and> P k then [i] else [])"
      using ih k l by simp
    also have "\<dots> = adj ! k @ (if k = i then filter P (j # js) else if k \<in> set (j # js) \<and> P k then [i] else [])"
      using e [OF k] ji by auto
    finally show "fold f (j # js) adj ! k
        = adj ! k @ (if k = i then filter P (j # js) else if k \<in> set (j # js) \<and> P k then [i] else [])" .
  qed
qed

lemma fold_rows:
  fixes Q :: "nat \<Rightarrow> nat \<Rightarrow> bool" and n :: nat
  defines "f \<equiv> \<lambda>i. fold (\<lambda>j adj. if Q i j then (let adj1 = adj[i := adj ! i @ [j]] in adj1[j := adj1 ! j @ [i]]) else adj) [i + 1..<n]"
  assumes "m \<le> n"
  shows "length (fold f [0..<m] (replicate n [])) = n
     \<and> (\<forall>k<n. fold f [0..<m] (replicate n []) ! k
           = filter (\<lambda>a. Q a k) [0..<min m k] @ (if k < m then filter (Q k) [k + 1..<n] else []))"
  using assms(2)
proof (induction m)
  case 0
  then show ?case by simp
next
  case (Suc m)
  define A where "A = fold f [0..<m] (replicate n [])"
  have A: "length A = n"
    "\<And>k. k < n \<Longrightarrow> A ! k = filter (\<lambda>a. Q a k) [0..<min m k] @ (if k < m then filter (Q k) [k + 1..<n] else [])"
    using Suc by (simp_all add: A_def)
  have step: "length (f m A) = length A
     \<and> (\<forall>k<length A. f m A ! k
           = A ! k @ (if k = m then filter (Q m) [m + 1..<n] else if k \<in> set [m + 1..<n] \<and> Q m k then [m] else []))"
    unfolding f_def by (rule fold_join) (use Suc.prems A(1) in auto)
  have eq: "fold f [0..<Suc m] (replicate n []) = f m A" by (simp add: A_def)
  show ?case
  proof (intro conjI allI impI)
    show "length (fold f [0..<Suc m] (replicate n [])) = n" using eq step A(1) by simp
    fix k assume k: "k < n"
    have "f m A ! k = A ! k @ (if k = m then filter (Q m) [m + 1..<n] else if k \<in> set [m + 1..<n] \<and> Q m k then [m] else [])"
      using step k A(1) by simp
    also have "\<dots> = filter (\<lambda>a. Q a k) [0..<min (Suc m) k] @ (if k < Suc m then filter (Q k) [k + 1..<n] else [])"
    proof -
      consider "k < m" | "k = m" | "m < k" by linarith
      then show ?thesis
      proof cases
        case 1
        then show ?thesis using A(2) [OF k] by (simp add: min_def)
      next
        case 2
        then show ?thesis using A(2) [OF k] by (simp add: min_def)
      next
        case 3
        then have "min (Suc m) k = Suc m" "min m k = m" by simp_all
        then show ?thesis using A(2) [OF k] 3 k by simp
      qed
    qed
    finally show "fold f [0..<Suc m] (replicate n []) ! k
        = filter (\<lambda>a. Q a k) [0..<min (Suc m) k] @ (if k < Suc m then filter (Q k) [k + 1..<n] else [])"
      using eq by simp
  qed
qed

lemma build_adj_list_rows:
  "length (build_adj_list obs) = length obs"
  "k < length obs \<Longrightarrow> build_adj_list obs ! k
      = filter (\<lambda>a. near (obs_rect (obs ! a)) (obs_rect (obs ! k))) [0..<k]
        @ filter (\<lambda>b. near (obs_rect (obs ! k)) (obs_rect (obs ! b))) [k + 1..<length obs]"
  using fold_rows [of "length obs" "length obs" "\<lambda>a b. near (obs_rect (obs ! a)) (obs_rect (obs ! b))"]
  by (simp_all add: build_adj_list_def Let_def)

lemma build_adj_list_set:
  assumes "k < length obs"
  shows "set (build_adj_list obs ! k) = {b. (k, b) \<in> near_pairs obs}"
    and "distinct (build_adj_list obs ! k)"
proof -
  show "set (build_adj_list obs ! k) = {b. (k, b) \<in> near_pairs obs}"
    unfolding build_adj_list_rows(2) [OF assms] near_pairs_def
    using assms near_sym by auto
  show "distinct (build_adj_list obs ! k)"
    unfolding build_adj_list_rows(2) [OF assms] by auto
qed

lemma links_build: "links (build_adj_list obs) = near_pairs obs"
proof -
  have "(u, v) \<in> links (build_adj_list obs) \<longleftrightarrow> (u, v) \<in> near_pairs obs" for u v
  proof (cases "u < length obs")
    case True
    then show ?thesis
      using build_adj_list_set(1) [OF True] by (simp add: links_def build_adj_list_rows(1))
  next
    case False
    then show ?thesis by (simp add: links_def build_adj_list_rows(1) near_pairs_def)
  qed
  then show ?thesis by auto
qed

lemma near_pairs_sym: "sym (near_pairs obs)"
  using near_sym by (auto simp: sym_def near_pairs_def)

lemma build_adj_list_range:
  "\<forall>u<length (build_adj_list obs). \<forall>v\<in>set (build_adj_list obs ! u). v < length (build_adj_list obs)"
  using build_adj_list_set(1) by (auto simp: build_adj_list_rows(1) near_pairs_def)

lemma components_of_obstacles:
  "\<exists>comps. connected_components (build_adj_list obs) = Some comps
     \<and> distinct (concat comps) \<and> set (concat comps) = {..<length obs}
     \<and> (\<forall>c\<in>set comps. \<forall>u\<in>set c. set c = {x. (u, x) \<in> (near_pairs obs)\<^sup>*})"
  using connected_components_returns [OF build_adj_list_range, of obs] near_pairs_sym [of obs]
  by (simp add: links_build build_adj_list_rows(1))

lemma prune_clusters_returns: "\<exists>kept. prune_clusters obs = Some kept"
  using components_of_obstacles [of obs] by (auto simp: prune_clusters_def Let_def)

lemma generate_obstacles_returns: "\<exists>kept r'. generate_obstacles g r count = Some (kept, r')"
  using prune_clusters_returns [of "fst (scatter g r count)"]
  by (auto simp: generate_obstacles_def Let_def split: prod.splits)

declare random_placement.simps [simp del]






lemma enumerate_filter_nth:
  "map snd (filter (\<lambda>(idx, ob). idx \<notin> rem) (enumerate 0 obs))
     = map (\<lambda>k. obs ! k) (filter (\<lambda>k. k \<notin> rem) [0..<length obs])"
proof -
  have "enumerate 0 obs = map (\<lambda>k. (k, obs ! k)) [0..<length obs]"
    by (rule nth_equalityI) (simp_all add: nth_enumerate_eq)
  then show ?thesis by (simp add: filter_map comp_def)
qed

lemma prune_clusters_kept:
  assumes "prune_clusters obs = Some kept"
  shows "\<exists>comps. connected_components (build_adj_list obs) = Some comps
     \<and> kept = map (\<lambda>k. obs ! k)
                (filter (\<lambda>k. k \<notin> to_remove_indices (build_adj_list obs) comps) [0..<length obs])"
proof -
  obtain comps where c: "connected_components (build_adj_list obs) = Some comps"
    using components_of_obstacles by blast
  define rem where "rem = to_remove_indices (build_adj_list obs) comps"
  have "kept = (if rem \<noteq> {} then map snd (filter (\<lambda>(idx, ob). idx \<notin> rem) (enumerate 0 obs)) else obs)"
    using assms c
    by (cases "to_remove_indices (build_adj_list obs) comps = {}")
       (simp_all add: prune_clusters_def Let_def rem_def)
  moreover have "obs = map (\<lambda>k. obs ! k) (filter (\<lambda>k. k \<notin> {}) [0..<length obs])"
    by (simp add: map_nth)
  ultimately have "kept = map (\<lambda>k. obs ! k) (filter (\<lambda>k. k \<notin> rem) [0..<length obs])"
    by (cases "rem = {}") (simp_all add: enumerate_filter_nth)
  then show ?thesis using c rem_def by blast
qed




lemma fold_insert_set: "fold insert xs R = set xs \<union> R"
  by (induction xs arbitrary: R) auto

lemma to_remove_indices_eq:
  "to_remove_indices adj comps
     = (\<Union>c\<in>{c \<in> set comps. MAX_NEARBY_OBSTACLES < length c}.
          set (take (length c - MAX_NEARBY_OBSTACLES) (comp_sorted adj c)))"
proof -
  have "fold (\<lambda>cmp rem. if MAX_NEARBY_OBSTACLES < length cmp
             then fold insert (take (length cmp - MAX_NEARBY_OBSTACLES) (comp_sorted adj cmp)) rem
             else rem) comps R
     = R \<union> (\<Union>c\<in>{c \<in> set comps. MAX_NEARBY_OBSTACLES < length c}.
          set (take (length c - MAX_NEARBY_OBSTACLES) (comp_sorted adj c)))" for R
    by (induction comps arbitrary: R) (auto simp: fold_insert_set)
  then show ?thesis by (simp add: to_remove_indices_def)
qed

lemma comp_sorted_set [simp]: "set (comp_sorted adj c) = set c"
  by (simp add: comp_sorted_def)

lemma comp_sorted_length [simp]: "length (comp_sorted adj c) = length c"
  by (simp add: comp_sorted_def)

lemma comp_sorted_distinct [simp]: "distinct (comp_sorted adj c) = distinct c"
  by (simp add: comp_sorted_def)

lemma comp_sorted_order:
  assumes "x \<in> set (take k (comp_sorted adj c))" and "y \<in> set (drop k (comp_sorted adj c))"
  shows "length (adj ! y) \<le> length (adj ! x)"
proof -
  let ?f = "\<lambda>idx. - int (length (adj ! idx))"
  have "sorted (map ?f (comp_sorted adj c))" by (simp add: comp_sorted_def)
  then have "sorted (map ?f (take k (comp_sorted adj c)) @ map ?f (drop k (comp_sorted adj c)))"
    by (simp flip: map_append)
  then have "?f x \<le> ?f y" using assms by (auto simp: sorted_append)
  then show ?thesis by simp
qed

lemma take_drop_split:
  assumes "distinct s"
  shows "set s - set (take k s) = set (drop k s)"
proof -
  have "distinct (take k s @ drop k s)" using assms by simp
  then have "set (take k s) \<inter> set (drop k s) = {}" by (simp only: distinct_append)
  moreover have "set s = set (take k s) \<union> set (drop k s)"
    by (metis append_take_drop_id set_append)
  ultimately show ?thesis by auto
qed

lemma removed_within:
  assumes "distinct (concat comps)" and "c \<in> set comps"
  shows "set c - to_remove_indices adj comps
     = (if MAX_NEARBY_OBSTACLES < length c
        then set (drop (length c - MAX_NEARBY_OBSTACLES) (comp_sorted adj c)) else set c)"
proof -
  have dc: "distinct c" using assms by (auto simp: distinct_concat_iff)
  have other: "set c \<inter> set (take k (comp_sorted adj c')) = {}" if "c' \<in> set comps" "c' \<noteq> c" for c' k
  proof -
    have "set c \<inter> set c' = {}" using assms that by (auto simp: distinct_concat_iff)
    moreover have "set (take k (comp_sorted adj c')) \<subseteq> set c'"
      using set_take_subset [of k "comp_sorted adj c'"] by simp
    ultimately show ?thesis by auto
  qed
  have "set c - to_remove_indices adj comps
      = set c - (if MAX_NEARBY_OBSTACLES < length c
                 then set (take (length c - MAX_NEARBY_OBSTACLES) (comp_sorted adj c)) else {})"
    unfolding to_remove_indices_eq using other assms(2) by (auto split: if_splits)
  also have "\<dots> = (if MAX_NEARBY_OBSTACLES < length c
        then set (drop (length c - MAX_NEARBY_OBSTACLES) (comp_sorted adj c)) else set c)"
    using take_drop_split [of "comp_sorted adj c" "length c - MAX_NEARBY_OBSTACLES"] dc by simp
  finally show ?thesis .
qed

lemma degree_length:
  assumes "k < length obs"
  shows "length (build_adj_list obs ! k) = degree obs k"
  using build_adj_list_set [OF assms] by (simp add: degree_def distinct_card [symmetric])

lemma cluster_bound: "a < length obs \<Longrightarrow> cluster obs a \<subseteq> {..<length obs}"
proof
  fix b assume a: "a < length obs" and "b \<in> cluster obs a"
  then have "(a, b) \<in> (near_pairs obs)\<^sup>*" by (simp add: cluster_def)
  then have "b < length obs"
    by (induction rule: rtrancl_induct) (use a in \<open>auto simp: near_pairs_def\<close>)
  then show "b \<in> {..<length obs}" by simp
qed

lemma prune_clusters_spec:
  assumes "prune_clusters obs = Some kept"
  shows "\<exists>ks. kept = map (\<lambda>k. obs ! k) ks \<and> sorted_wrt (<) ks \<and> set ks \<subseteq> {..<length obs}
     \<and> (\<forall>a<length obs. card (cluster obs a \<inter> set ks) = min (card (cluster obs a)) MAX_NEARBY_OBSTACLES)
     \<and> (\<forall>a\<in>set ks. \<forall>b\<in>cluster obs a - set ks. degree obs a \<le> degree obs b)"
proof -
  define adj where "adj = build_adj_list obs"
  obtain comps where c: "connected_components adj = Some comps"
    "kept = map (\<lambda>k. obs ! k) (filter (\<lambda>k. k \<notin> to_remove_indices adj comps) [0..<length obs])"
    using prune_clusters_kept [OF assms] adj_def by blast
  obtain comps' where c': "connected_components adj = Some comps'"
    "distinct (concat comps')" "set (concat comps') = {..<length obs}"
    "\<forall>c\<in>set comps'. \<forall>u\<in>set c. set c = {x. (u, x) \<in> (near_pairs obs)\<^sup>*}"
    using components_of_obstacles [of obs] adj_def by blast
  have cc: "comps' = comps" using c(1) c'(1) by simp
  note p = c'(2-4) [unfolded cc]
  define rem where "rem = to_remove_indices adj comps"
  define ks where "ks = filter (\<lambda>k. k \<notin> rem) [0..<length obs]"
  have sk: "set ks = {..<length obs} - rem" by (auto simp: ks_def)
  have so: "sorted_wrt (<) ks" unfolding ks_def by (rule sorted_wrt_filter) simp
  have home: "\<exists>c\<in>set comps. a \<in> set c \<and> set c = cluster obs a" if "a < length obs" for a
  proof -
    have "a \<in> set (concat comps)" using p(2) that by simp
    then obtain c where "c \<in> set comps" "a \<in> set c" by auto
    then show ?thesis using p(3) by (auto simp: cluster_def)
  qed
  have part: "cluster obs a \<inter> set ks = set c - rem" if "a < length obs" "set c = cluster obs a" for a c
    using cluster_bound [OF that(1)] that(2) sk by auto
  have count: "card (cluster obs a \<inter> set ks) = min (card (cluster obs a)) MAX_NEARBY_OBSTACLES"
    if a: "a < length obs" for a
  proof -
    obtain c where c: "c \<in> set comps" "a \<in> set c" "set c = cluster obs a" using home [OF a] by blast
    have dc: "distinct c" using p(1) c(1) by (auto simp: distinct_concat_iff)
    have l: "card (cluster obs a) = length c" using c(3) dc by (simp add: distinct_card [symmetric])
    have "cluster obs a \<inter> set ks = (if MAX_NEARBY_OBSTACLES < length c
        then set (drop (length c - MAX_NEARBY_OBSTACLES) (comp_sorted adj c)) else set c)"
      unfolding part [OF a c(3)] rem_def by (rule removed_within [OF p(1) c(1)])
    moreover have "card (set (drop (length c - MAX_NEARBY_OBSTACLES) (comp_sorted adj c)))
        = length c - (length c - MAX_NEARBY_OBSTACLES)"
      using dc by (simp add: distinct_card)
    ultimately show ?thesis using l dc by (auto simp: distinct_card min_def)
  qed
  have order: "degree obs a \<le> degree obs b" if a: "a \<in> set ks" and b: "b \<in> cluster obs a - set ks" for a b
  proof -
    have al: "a < length obs" using a sk by simp
    obtain c where c: "c \<in> set comps" "a \<in> set c" "set c = cluster obs a" using home [OF al] by blast
    have bl: "b < length obs" using cluster_bound [OF al] b by auto
    have keep: "set c - rem = (if MAX_NEARBY_OBSTACLES < length c
        then set (drop (length c - MAX_NEARBY_OBSTACLES) (comp_sorted adj c)) else set c)"
      unfolding rem_def by (rule removed_within [OF p(1) c(1)])
    have ak: "a \<in> set c - rem" using a c(2) sk by simp
    have bk: "b \<in> set c" "b \<notin> set c - rem" using b c(3) sk bl by auto
    have big: "MAX_NEARBY_OBSTACLES < length c" using keep bk by (auto split: if_splits)
    have ad: "a \<in> set (drop (length c - MAX_NEARBY_OBSTACLES) (comp_sorted adj c))"
      using ak keep big by simp
    have dc: "distinct c" using p(1) c(1) by (auto simp: distinct_concat_iff)
    have "b \<notin> set (drop (length c - MAX_NEARBY_OBSTACLES) (comp_sorted adj c))"
      using bk keep big by simp
    then have bt: "b \<in> set (take (length c - MAX_NEARBY_OBSTACLES) (comp_sorted adj c))"
      using take_drop_split [of "comp_sorted adj c" "length c - MAX_NEARBY_OBSTACLES"] dc bk(1) by auto
    have "length (adj ! a) \<le> length (adj ! b)" using comp_sorted_order [OF bt ad] .
    then show ?thesis using degree_length al bl by (simp add: adj_def)
  qed
  show ?thesis
    using c(2) so sk count order unfolding rem_def [symmetric] ks_def [symmetric]
    by (intro exI [of _ ks]) auto
qed

lemma kept_cluster_bound:
  assumes "kept = map (\<lambda>k. obs ! k) ks" and "sorted_wrt (<) ks" and "set ks \<subseteq> {..<length obs}"
    and "\<forall>a<length obs. card (cluster obs a \<inter> set ks) \<le> m"
    and "a < length kept"
  shows "card (cluster kept a) \<le> m"
proof -
  have dk: "distinct ks" using assms(2) strict_sorted_iff by blast
  have lk: "length kept = length ks" using assms(1) by simp
  have carry: "(ks ! p, ks ! q) \<in> near_pairs obs" if "(p, q) \<in> near_pairs kept" for p q
  proof -
    have pq: "p < length ks" "q < length ks" "p \<noteq> q"
      "near (obs_rect (kept ! p)) (obs_rect (kept ! q))"
      using that lk by (auto simp: near_pairs_def)
    have "ks ! p \<noteq> ks ! q" using dk pq(1-3) by (simp add: nth_eq_iff_index_eq)
    moreover have "ks ! p < length obs" "ks ! q < length obs"
      using assms(3) nth_mem [OF pq(1)] nth_mem [OF pq(2)] by blast+
    ultimately show ?thesis using pq assms(1) by (simp add: near_pairs_def)
  qed
  have star: "q < length ks \<and> (ks ! a, ks ! q) \<in> (near_pairs obs)\<^sup>*" if "(a, q) \<in> (near_pairs kept)\<^sup>*" for q
    using that
  proof (induction rule: rtrancl_induct)
    case base
    then show ?case using assms(5) lk by simp
  next
    case (step y z)
    have "z < length ks" using step.hyps(2) lk by (simp add: near_pairs_def)
    moreover have "(ks ! y, ks ! z) \<in> near_pairs obs" using step.hyps(2) by (rule carry)
    ultimately show ?case using step.IH by (meson rtrancl.rtrancl_into_rtrancl)
  qed
  have sub: "cluster kept a \<subseteq> {..<length ks}" using star by (auto simp: cluster_def)
  have img: "(\<lambda>q. ks ! q) ` cluster kept a \<subseteq> cluster obs (ks ! a) \<inter> set ks"
    using star by (auto simp: cluster_def)
  have inj: "inj_on (\<lambda>q. ks ! q) (cluster kept a)"
  proof (rule inj_onI)
    fix x y assume "x \<in> cluster kept a" "y \<in> cluster kept a" "ks ! x = ks ! y"
    then have "x < length ks" "y < length ks" "ks ! x = ks ! y" using sub by auto
    then show "x = y" using dk by (simp add: nth_eq_iff_index_eq)
  qed
  have "ks ! a \<in> set ks" using assms(5) lk by simp
  then have al: "ks ! a < length obs" using assms(3) by blast
  have "card (cluster kept a) = card ((\<lambda>q. ks ! q) ` cluster kept a)"
    using inj by (simp add: card_image)
  also have "\<dots> \<le> card (cluster obs (ks ! a) \<inter> set ks)"
    using img by (intro card_mono) auto
  also have "\<dots> \<le> m" using assms(4) al by simp
  finally show ?thesis .
qed


lemma shuffle_down_same:
  assumes "\<And>k. r \<le> k \<Longrightarrow> k < r + i \<Longrightarrow> g k = 999 / 1000" and "i < 999"
  shows "shuffle_down g r i xs = xs"
  using assms
proof (induction i arbitrary: r)
  case 0
  then show ?case by simp
next
  case (Suc i)
  have g: "g r = 999 / 1000" using Suc.prems(1) [of r] by simp
  have "\<lfloor>999 / 1000 * real (Suc (Suc i))\<rfloor> = int (Suc i)"
    using Suc.prems(2) by (simp add: floor_eq_iff)
  then have j: "randbelow (Suc (Suc i)) (g r) = Suc i"
    unfolding randbelow_def g by simp
  have "shuffle_down g (r + 1) i xs = xs"
    by (rule Suc.IH) (use Suc.prems in auto)
  then show ?case by (simp add: j Let_def)
qed

lemma place_candidates_full:
  "count \<le> length obs \<Longrightarrow> place_candidates g count max_tries cands tries r obs = (obs, r)"
  by (cases cands) auto

lemma chain_grid:
  "take 3 (grid_candidates chain_stream 0) = [(100, 100), (100, 300), (100, 433)]"
  "length (grid_candidates chain_stream 0) = 108"
  by (simp_all add: grid_candidates_def grid_center_def x_cells_def y_cells_def config_defs
        uniform_def int_trunc_def chain_stream_def upt_conv_Cons)

lemma chain_candidates:
  "shuffle chain_stream 216 (grid_candidates chain_stream 0)
     = (100, 100) # (100, 300) # (100, 433) # drop 3 (grid_candidates chain_stream 0)"
proof -
  have "shuffle chain_stream 216 (grid_candidates chain_stream 0) = grid_candidates chain_stream 0"
    unfolding shuffle_def chain_grid(2)
    by (rule shuffle_down_same) (simp_all add: chain_stream_def)
  also have "\<dots> = take 3 (grid_candidates chain_stream 0) @ drop 3 (grid_candidates chain_stream 0)"
    by simp
  finally show ?thesis by (simp add: chain_grid(1))
qed

lemma chain_place_2:
  "place_candidates chain_stream 2 648 ((100, 100) # (100, 300) # (100, 433) # rest) 0 323 []
     = ([pillar, stump], 333)"
  by (simp add: Let_def randint_def chain_stream_def clamp_def config_defs colliderect_def
      center_area_def Rect_def overlapped_def inflate_def near_def distance_def centerx_def
      centery_def choice_def randbelow_def kinds_def pillar_def stump_def)

lemma chain_place_3:
  "place_candidates chain_stream 3 648 ((100, 100) # (100, 300) # (100, 433) # rest) 0 323 []
     = ([pillar, stump, shrub], 338)"
  by (simp add: Let_def randint_def chain_stream_def clamp_def config_defs colliderect_def
      center_area_def Rect_def overlapped_def inflate_def near_def distance_def centerx_def
      centery_def choice_def randbelow_def kinds_def pillar_def stump_def shrub_def
      place_candidates_full)

lemma random_placement_full:
  "count \<le> length obs \<Longrightarrow> random_placement g count extra_tries r obs = (obs, r)"
  by (subst random_placement.simps) simp

lemma chain_scatter:
  "scatter chain_stream 0 2 = ([pillar, stump], 333)"
  "scatter chain_stream 0 3 = ([pillar, stump, shrub], 338)"
proof -
  have n: "nat (x_cells * y_cells) = 108" by (simp add: x_cells_def y_cells_def config_defs)
  show "scatter chain_stream 0 2 = ([pillar, stump], 333)"
    unfolding scatter_def n Let_def
    by (simp add: chain_candidates chain_grid(2) chain_place_2 random_placement_full
          del: place_candidates.simps)
  show "scatter chain_stream 0 3 = ([pillar, stump, shrub], 338)"
    unfolding scatter_def n Let_def
    by (simp add: chain_candidates chain_grid(2) chain_place_3 random_placement_full
          del: place_candidates.simps)
qed

lemma prune_small:
  assumes "length obs \<le> MAX_NEARBY_OBSTACLES"
  shows "prune_clusters obs = Some obs"
proof -
  obtain comps where c: "connected_components (build_adj_list obs) = Some comps"
    "distinct (concat comps)" "set (concat comps) = {..<length obs}"
    using components_of_obstacles [of obs] by blast
  have "length c \<le> MAX_NEARBY_OBSTACLES" if "c \<in> set comps" for c
  proof -
    have "distinct c" "set c \<subseteq> {..<length obs}" using c(2,3) that by (auto simp: distinct_concat_iff)
    then have "length c \<le> card {..<length obs}"
      by (metis card_mono distinct_card finite_lessThan)
    then show ?thesis using assms by simp
  qed
  then have "to_remove_indices (build_adj_list obs) comps = {}"
    unfolding to_remove_indices_eq by (auto simp: not_less [symmetric])
  then show ?thesis by (simp add: prune_clusters_def c(1))
qed

lemma flood_done: "flood adj [] cmp visited = Some (cmp, visited)"
  by (subst flood.simps) simp

lemma flood_step:
  "stack \<noteq> [] \<Longrightarrow> last stack < length adj \<Longrightarrow>
   flood adj stack cmp visited
     = (case visit (adj ! last stack) visited (butlast stack) of
          None \<Rightarrow> None
        | Some (visited1, stack1) \<Rightarrow> flood adj stack1 (cmp @ [last stack]) visited1)"
  by (subst flood.simps) (simp add: Let_def)

lemma chain_adj: "build_adj_list [pillar, stump, shrub] = [[1], [0, 2], [1]]"
  by (simp add: build_adj_list_def Let_def upt_conv_Cons near_def distance_def centerx_def
      centery_def Rect_def pillar_def stump_def shrub_def config_defs)

lemma chain_components: "connected_components [[1], [0, 2], [1]] = Some [[0, 1, 2]]"
  by (simp add: connected_components_def upt_conv_Cons flood_step flood_done)

lemma chain_prune: "prune_clusters [pillar, stump, shrub] = Some [pillar, shrub]"
  unfolding prune_clusters_def chain_adj Let_def chain_components
  by (simp add: to_remove_indices_def comp_sorted_def MAX_NEARBY_OBSTACLES_def)

lemma chain_run:
  "generate_obstacles chain_stream 0 2 = Some ([pillar, stump], 333)"
  "generate_obstacles chain_stream 0 3 = Some ([pillar, shrub], 338)"
  by (simp_all add: generate_obstacles_def chain_scatter chain_prune prune_small
        MAX_NEARBY_OBSTACLES_def)



text \<open>
  The margin is the whole gap between two obstacles, not a margin around each: the two
  obstacles of the run above are 8 apart, and they do overlap when each is grown by the
  margin on every side, the way the source grows the rectangle it tests.
\<close>

lemma margin_is_shared:
  "colliderect (inflate (obs_rect pillar) (OBSTACLE_SAFETY_MARGIN * 2) (OBSTACLE_SAFETY_MARGIN * 2))
               (inflate (obs_rect stump) (OBSTACLE_SAFETY_MARGIN * 2) (OBSTACLE_SAFETY_MARGIN * 2))"
  by (simp add: colliderect_def inflate_def Rect_def pillar_def stump_def OBSTACLE_SAFETY_MARGIN_def)

text \<open>
  Claim C1. \<open>generate_obstacles\<close> returns for every stream and every \<open>count\<close>. In the
  graph on the returned obstacles that joins two obstacles whose centres are less than
  \<open>NEAR_RADIUS\<close> apart, the connected component of every obstacle (its \<open>cluster\<close>) has at
  most \<open>MAX_NEARBY_OBSTACLES\<close> members. The post-process obtains this as the claim says:
  the returned list is the list of the obstacles placed by the two loops, restricted to
  the kept indices \<open>ks\<close>; of every component of the graph on the placed obstacles,
  \<open>min size MAX_NEARBY_OBSTACLES\<close> members are kept, and a member that is removed has at
  least the degree of every member of its component that is kept.
\<close>

theorem clusters_bounded:
  "\<exists>kept r' ks. generate_obstacles g r count = Some (kept, r')
     \<and> (\<forall>a<length kept. card (cluster kept a) \<le> MAX_NEARBY_OBSTACLES)
     \<and> kept = map (\<lambda>k. fst (scatter g r count) ! k) ks \<and> sorted_wrt (<) ks
     \<and> set ks \<subseteq> {..<length (fst (scatter g r count))}
     \<and> (\<forall>a<length (fst (scatter g r count)).
           card (cluster (fst (scatter g r count)) a \<inter> set ks)
             = min (card (cluster (fst (scatter g r count)) a)) MAX_NEARBY_OBSTACLES)
     \<and> (\<forall>a\<in>set ks. \<forall>b\<in>cluster (fst (scatter g r count)) a - set ks.
           degree (fst (scatter g r count)) a \<le> degree (fst (scatter g r count)) b)"
proof -
  define obs where "obs = fst (scatter g r count)"
  obtain kept r' where k: "generate_obstacles g r count = Some (kept, r')"
    using generate_obstacles_returns by blast
  have p: "prune_clusters obs = Some kept"
    using k by (auto simp: generate_obstacles_def obs_def split: prod.splits)
  from prune_clusters_spec [OF p]
  obtain ks where ks: "kept = map (\<lambda>k. obs ! k) ks" "sorted_wrt (<) ks" "set ks \<subseteq> {..<length obs}"
    "\<forall>a<length obs. card (cluster obs a \<inter> set ks) = min (card (cluster obs a)) MAX_NEARBY_OBSTACLES"
    "\<forall>a\<in>set ks. \<forall>b\<in>cluster obs a - set ks. degree obs a \<le> degree obs b"
    by blast
  have "\<forall>a<length obs. card (cluster obs a \<inter> set ks) \<le> MAX_NEARBY_OBSTACLES"
    using ks(4) by simp
  then have "\<forall>a<length kept. card (cluster kept a) \<le> MAX_NEARBY_OBSTACLES"
    using kept_cluster_bound [OF ks(1-3)] by blast
  then show ?thesis
    using k ks unfolding obs_def by blast
qed

lemma chain_near: "(0, 1) \<in> near_pairs [pillar, stump, shrub]"
  by (simp add: near_pairs_def near_def distance_def centerx_def centery_def Rect_def
      pillar_def stump_def config_defs)

theorem clusters_bounded_witness:
  "generate_obstacles chain_stream 0 3 = Some ([pillar, shrub], 338)
   \<and> fst (scatter chain_stream 0 3) = [pillar, stump, shrub]
   \<and> card (cluster [pillar, shrub] 0) \<le> MAX_NEARBY_OBSTACLES
   \<and> card (cluster [pillar, stump, shrub] 0 \<inter> {0, 2})
       = min (card (cluster [pillar, stump, shrub] 0)) MAX_NEARBY_OBSTACLES
   \<and> 1 \<in> cluster [pillar, stump, shrub] 0
   \<and> degree [pillar, stump, shrub] 0 \<le> degree [pillar, stump, shrub] 1"
proof -
  define obs where "obs = [pillar, stump, shrub]"
  have s: "fst (scatter chain_stream 0 3) = obs" by (simp add: chain_scatter obs_def)
  obtain kept r' ks where k: "generate_obstacles chain_stream 0 3 = Some (kept, r')"
    "\<forall>a<length kept. card (cluster kept a) \<le> MAX_NEARBY_OBSTACLES"
    "kept = map (\<lambda>k. obs ! k) ks" "sorted_wrt (<) ks" "set ks \<subseteq> {..<length obs}"
    "\<forall>a<length obs. card (cluster obs a \<inter> set ks) = min (card (cluster obs a)) MAX_NEARBY_OBSTACLES"
    "\<forall>a\<in>set ks. \<forall>b\<in>cluster obs a - set ks. degree obs a \<le> degree obs b"
    using clusters_bounded [of chain_stream 0 3] unfolding s by blast
  have e: "kept = [pillar, shrub]" using k(1) chain_run(2) by simp
  obtain k0 k1 where kk: "ks = [k0, k1]"
    using k(3) e by (cases ks; cases "tl ks") auto
  have "k0 < 3" "k1 < 3" "obs ! k0 = pillar" "obs ! k1 = shrub"
    using k(3,5) e kk by (simp_all add: obs_def)
  then have "k0 = 0 \<and> k1 = 2"
    by (auto simp: obs_def less_Suc_eq numeral_3_eq_3 pillar_def stump_def shrub_def Rect_def)
  then have ks: "set ks = {0, 2}" using kk by simp
  have one: "1 \<in> cluster obs 0" using chain_near by (auto simp: cluster_def obs_def)
  have "card (cluster kept 0) \<le> MAX_NEARBY_OBSTACLES" using k(2) e by simp
  moreover have "card (cluster obs 0 \<inter> {0, 2}) = min (card (cluster obs 0)) MAX_NEARBY_OBSTACLES"
    using k(6) ks by (simp add: obs_def)
  moreover have "degree obs 0 \<le> degree obs 1" using k(7) ks one by simp
  ultimately show ?thesis
    using chain_run(2) s one unfolding e obs_def by simp
qed
end
